theory Spec2Isabelle
  imports Complex_Main "HOL-Library.Word" "HOL-Library.Sublist"
begin

section \<open>Script values\<close>

text \<open>
  A script number is a double: a finite value (every finite double is a rational), NaN,
  or one of the two infinities.
\<close>

datatype jsnumber = Finite rat | NaN | PosInfinity | NegInfinity

text \<open>
  The values of the script runtime that the binding inspects. An \<open>External\<close> carries a
  raw native pointer, an object its own properties in insertion order, a function its
  identity.
\<close>

datatype jsvalue =
    VUndefined
  | VNull
  | VBoolean bool
  | VNumber jsnumber
  | VString string
  | VExternal nat
  | VFunction nat
  | VPromise nat
  | VObject "(string \<times> jsvalue) list"

fun IsString :: "jsvalue \<Rightarrow> bool" where
  "IsString (VString s) = True"
| "IsString v = False"

fun IsNull :: "jsvalue \<Rightarrow> bool" where
  "IsNull VNull = True"
| "IsNull v = False"

fun IsNumber :: "jsvalue \<Rightarrow> bool" where
  "IsNumber (VNumber q) = True"
| "IsNumber v = False"

fun IsExternal :: "jsvalue \<Rightarrow> bool" where
  "IsExternal (VExternal p) = True"
| "IsExternal v = False"

text \<open>\<open>object->Get(key)\<close>: the property, or undefined when the object has none.\<close>

fun Get :: "jsvalue \<Rightarrow> string \<Rightarrow> jsvalue" where
  "Get (VObject ps) k = (case map_of ps k of Some v \<Rightarrow> v | None \<Rightarrow> VUndefined)"
| "Get v k = VUndefined"

text \<open>
  \<open>function->Call(receiver, argc, argv)\<close>. What a script function computes is the
  script engine's business: \<open>engine k recv argv\<close> is the result of the function with
  identity \<open>k\<close>, or \<open>None\<close> when the call threw (V8 then returns an empty handle).
  Calling something that is not a function yields no value.
\<close>

type_synonym script_engine = "nat \<Rightarrow> jsvalue \<Rightarrow> jsvalue list \<Rightarrow> jsvalue option"

fun Call :: "script_engine \<Rightarrow> jsvalue \<Rightarrow> jsvalue \<Rightarrow> jsvalue list \<Rightarrow> jsvalue option" where
  "Call engine (VFunction k) recv argv = engine k recv argv"
| "Call engine f recv argv = None"

section \<open>The runtime container (runtime.cc)\<close>

text \<open>
  Member names are the source's without the trailing underscore. The two contexts are
  held by address. A \<open>Persistent\<close> handle is \<open>None\<close> when
  empty (after \<open>Reset()\<close>). The registry \<open>data\<close> is a GHashTable from string keys to
  raw pointers, created without destroy functions.
\<close>

record runtime =
  uv_context :: nat
  glib_context :: nat
  data :: "string \<rightharpoonup> nat"
  json_module :: "jsvalue option"
  json_stringify :: "jsvalue option"
  json_parse :: "jsvalue option"

text \<open>\<open>Runtime::Runtime\<close>, given the global object of the current script context.\<close>

definition Runtime_new :: "nat \<Rightarrow> nat \<Rightarrow> jsvalue \<Rightarrow> runtime" where
  "Runtime_new uv glib global =
     (let module_obj = Get global ''JSON'';
          stringify_fn = Get module_obj ''stringify'';
          parse_fn = Get module_obj ''parse''
      in \<lparr> uv_context = uv,
           glib_context = glib,
           data = Map.empty,
           json_module = Some module_obj,
           json_stringify = Some stringify_fn,
           json_parse = Some parse_fn \<rparr>)"

definition GetDataPointer :: "runtime \<Rightarrow> string \<Rightarrow> nat option" where
  "GetDataPointer r k = data r k"

definition SetDataPointer :: "runtime \<Rightarrow> string \<Rightarrow> nat \<Rightarrow> runtime" where
  "SetDataPointer r k p = r\<lparr>data := (data r)(k \<mapsto> p)\<rparr>"

text \<open>
  \<open>Runtime::~Runtime\<close>. The object is gone afterwards, so the destructor is modelled by
  the sequence of its effects on the rest of the process, in program order: three handle
  resets, the release of the registry table, and the two \<open>delete\<close> expressions, each on
  the address the runtime holds.
\<close>

datatype teardown_effect =
    ResetJsonParse
  | ResetJsonStringify
  | ResetJsonModule
  | HashTableUnref
  | DeleteGLibContext nat
  | DeleteUVContext nat

definition Runtime_destroy :: "runtime \<Rightarrow> teardown_effect list" where
  "Runtime_destroy r =
     [ResetJsonParse, ResetJsonStringify, ResetJsonModule,
      HashTableUnref,
      DeleteGLibContext (glib_context r),
      DeleteUVContext (uv_context r)]"

text \<open>\<open>precedes a b xs\<close>: \<open>a\<close> occurs in \<open>xs\<close>, and \<open>b\<close> occurs after its first occurrence.\<close>

definition precedes :: "'a \<Rightarrow> 'a \<Rightarrow> 'a list \<Rightarrow> bool" where
  "precedes a b xs = (b \<in> set (drop 1 (dropWhile (\<lambda>x. x \<noteq> a) xs)))"

text \<open>\<open>Runtime::ValueToJson\<close> and \<open>Runtime::ValueFromJson\<close>.\<close>

definition ValueToJson :: "script_engine \<Rightarrow> runtime \<Rightarrow> jsvalue \<Rightarrow> jsvalue option" where
  "ValueToJson engine r v =
     (case (json_module r, json_stringify r) of
        (Some module_obj, Some stringify_fn) \<Rightarrow> Call engine stringify_fn module_obj [v]
      | _ \<Rightarrow> None)"

definition ValueFromJson :: "script_engine \<Rightarrow> runtime \<Rightarrow> jsvalue \<Rightarrow> jsvalue option" where
  "ValueFromJson engine r json =
     (case (json_module r, json_parse r) of
        (Some module_obj, Some parse_fn) \<Rightarrow> Call engine parse_fn module_obj [json]
      | _ \<Rightarrow> None)"

section \<open>The Session binding (session.cc)\<close>

text \<open>
  A bound method receives its arguments as a \<open>FunctionCallbackInfo\<close>; \<open>args[i]\<close> past
  \<open>args.Length()\<close> is undefined. A thrown script exception is the \<open>Inl\<close> result.
\<close>

definition arg :: "jsvalue list \<Rightarrow> nat \<Rightarrow> jsvalue" where
  "arg args i = (if i < length args then args ! i else VUndefined)"

datatype js_exception = TypeError string

text \<open>The wrapper: a \<open>Session\<close> holds the native \<open>FridaSession*\<close> it wraps.\<close>

record session =
  handle :: nat

text \<open>
  The operation descriptors of this file, with the members their constructors store.
  A \<open>gchar*\<close> is \<open>None\<close> when NULL; a \<open>guint16\<close> is a 16-bit word.
\<close>

datatype operation =
    DetachOperation
  | CreateScriptOperation "string option" string
  | EnableDebuggerOperation "16 word"
  | DisableDebuggerOperation

text \<open>The native entry points, with the arguments each \<open>Begin()\<close> hands over.\<close>

datatype native_call =
    frida_session_detach nat
  | frida_session_create_script nat "string option" string
  | frida_session_enable_debugger nat "16 word"
  | frida_session_disable_debugger nat

fun Begin :: "nat \<Rightarrow> operation \<Rightarrow> native_call" where
  "Begin h DetachOperation = frida_session_detach h"
| "Begin h (CreateScriptOperation name source) = frida_session_create_script h name source"
| "Begin h (EnableDebuggerOperation port) = frida_session_enable_debugger h port"
| "Begin h DisableDebuggerOperation = frida_session_disable_debugger h"

text \<open>
  What the binding has built so far: the descriptors allocated with \<open>new\<close>, the work
  posted to the native-world context (each entry is the \<open>Begin\<close> step of a descriptor on
  the handle of the wrapper it was scheduled for), the wrappers constructed, and the
  usage monitors enabled on them (by handle and signal name).
\<close>

record binding =
  operations :: "operation list"
  glib_pending :: "(nat \<times> operation) list"
  wrappers :: "session list"
  monitors :: "(nat \<times> string) list"

definition new_operation :: "operation \<Rightarrow> binding \<Rightarrow> nat \<times> binding" where
  "new_operation operation b =
     (length (operations b), b\<lparr>operations := operations b @ [operation]\<rparr>)"

text \<open>
  Modelled from the spec: \<open>Operation<T>::Schedule\<close> and \<open>GetPromise\<close> (operation.h is
  not among the sources). Section 4.5: on the script thread the adapter captures the
  target handle, attaches a promise resolver, and calls schedule on the native-world
  context with \<open>begin\<close> as the work. The descriptor is named by its index among the
  allocated ones, and so is its promise.
\<close>

definition Operation_Schedule :: "nat \<Rightarrow> session \<Rightarrow> binding \<Rightarrow> binding" where
  "Operation_Schedule operation wrapper b =
     b\<lparr>glib_pending := glib_pending b @ [(handle wrapper, operations b ! operation)]\<rparr>"

definition GetPromise :: "nat \<Rightarrow> jsvalue" where
  "GetPromise operation = VPromise operation"

text \<open>What the native thread does with a posted piece of work: it runs \<open>Begin\<close>.\<close>

definition run_glib_work :: "nat \<times> operation \<Rightarrow> native_call" where
  "run_glib_work w = Begin (fst w) (snd w)"

text \<open>
  \<open>args[0]->ToInteger()\<close> on a number: NaN becomes 0, an infinity stays, and a finite
  number is truncated towards zero (\<open>floor\<close> from zero up, \<open>ceil\<close> below). Only numbers
  reach the conversion in this file.
\<close>

fun ToInteger :: "jsnumber \<Rightarrow> jsnumber" where
  "ToInteger NaN = Finite 0"
| "ToInteger PosInfinity = PosInfinity"
| "ToInteger NegInfinity = NegInfinity"
| "ToInteger (Finite q) = Finite (of_int (if 0 \<le> q then \<lfloor>q\<rfloor> else \<lceil>q\<rceil>))"

text \<open>
  \<open>Integer::Value()\<close> on the result is \<open>static_cast<int64_t>\<close> of the double. The cast
  truncates, and C++ defines it only where the truncated value is an \<open>int64_t\<close>. For
  every other double (an infinity, a NaN, a value beyond the range) the result belongs to
  the machine: a \<open>target\<close> says what its conversion yields there. On x86-64 the
  conversion instruction yields \<open>0x8000000000000000\<close> for every such double.
\<close>

type_synonym target = "jsnumber \<Rightarrow> 64 word"

definition x86_64 :: target where
  "x86_64 n = 9223372036854775808"

definition is_int64 :: "int \<Rightarrow> bool" where
  "is_int64 i = (- 9223372036854775808 \<le> i \<and> i < 9223372036854775808)"

fun Integer_Value :: "target \<Rightarrow> jsnumber \<Rightarrow> 64 word" where
  "Integer_Value t (Finite q) =
     (if is_int64 (if 0 \<le> q then \<lfloor>q\<rfloor> else \<lceil>q\<rceil>)
      then word_of_int (if 0 \<le> q then \<lfloor>q\<rfloor> else \<lceil>q\<rceil>)
      else t (Finite q))"
| "Integer_Value t n = t n"

fun ToInteger_Value :: "target \<Rightarrow> jsvalue \<Rightarrow> 64 word" where
  "ToInteger_Value t (VNumber n) = Integer_Value t (ToInteger n)"
| "ToInteger_Value t v = 0"

definition static_cast_guint16 :: "64 word \<Rightarrow> 16 word" where
  "static_cast_guint16 x = ucast x"

text \<open>
  \<open>String::Utf8Value\<close> gives the bytes of a script string (a \<open>VString\<close> holds them),
  and \<open>g_strdup\<close> copies a C string: the bytes before the first NUL.
\<close>

fun Utf8Value :: "jsvalue \<Rightarrow> string" where
  "Utf8Value (VString s) = s"
| "Utf8Value v = []"

definition g_strdup :: "string \<Rightarrow> string" where
  "g_strdup s = takeWhile (\<lambda>c. c \<noteq> CHR 0x00) s"

fun External_Value :: "jsvalue \<Rightarrow> nat" where
  "External_Value (VExternal p) = p"
| "External_Value v = 0"


text \<open>\<open>Session::CreateScript\<close>.\<close>

definition Session_CreateScript ::
  "session \<Rightarrow> jsvalue list \<Rightarrow> binding \<Rightarrow> (js_exception + jsvalue) \<times> binding" where
  "Session_CreateScript wrapper args b =
     (if length args < 2 \<or>
         \<not> (IsString (arg args 0) \<or> IsNull (arg args 0)) \<or>
         \<not> IsString (arg args 1)
      then (Inl (TypeError ''Bad argument, expected string|null and string''), b)
      else
        let name = (if IsString (arg args 0)
                    then Some (g_strdup (Utf8Value (arg args 0))) else None);
            source = Utf8Value (arg args 1);
            (operation, b1) = new_operation (CreateScriptOperation name (g_strdup source)) b;
            b2 = Operation_Schedule operation wrapper b1
        in (Inr (GetPromise operation), b2))"

text \<open>\<open>Session::EnableDebugger\<close>, on a given target.\<close>

definition Session_EnableDebugger ::
  "target \<Rightarrow> session \<Rightarrow> jsvalue list \<Rightarrow> binding \<Rightarrow> (js_exception + jsvalue) \<times> binding" where
  "Session_EnableDebugger t wrapper args b =
     (if length args < 1 \<or> \<not> IsNumber (arg args 0)
      then (Inl (TypeError ''Bad argument, expected port number''), b)
      else
        let port = static_cast_guint16 (ToInteger_Value t (arg args 0));
            (operation, b1) = new_operation (EnableDebuggerOperation port) b;
            b2 = Operation_Schedule operation wrapper b1
        in (Inr (GetPromise operation), b2))"




text \<open>
  \<open>Session::New(const FunctionCallbackInfo<Value>&)\<close>, the constructor callback. The
  first argument says whether the call is a construct call. In the other branch
  \<open>args.Callee()->NewInstance(0, NULL)\<close> calls the constructor again, as a construct
  call without arguments. The object returned carries the \<open>events\<close> property (the
  emitter itself comes from events.h and is left opaque); the monitor is a
  \<open>UsageMonitor\<close> on the signal \<open>detached\<close>.
\<close>

function Session_New ::
  "bool \<Rightarrow> jsvalue list \<Rightarrow> binding \<Rightarrow> (js_exception + jsvalue) \<times> binding" where
  "Session_New is_construct_call args b =
     (if is_construct_call then
        (if length args \<noteq> 1 \<or> \<not> IsExternal (arg args 0)
         then (Inl (TypeError ''Bad argument, expected raw handle''), b)
         else
           let h = External_Value (arg args 0);
               wrapper = \<lparr>handle = h\<rparr>;
               obj = VObject [(''events'', VObject [])];
               b1 = b\<lparr>wrappers := wrappers b @ [wrapper]\<rparr>;
               b2 = b1\<lparr>monitors := monitors b1 @ [(h, ''detached'')]\<rparr>
           in (Inr obj, b2))
      else Session_New True [] b)"
  by pat_completeness auto
termination
  by (relation "measure (\<lambda>(c, args, b). if c then 0 else 1)") auto

text \<open>
  \<open>Session::New(gpointer handle, Runtime* runtime)\<close>: the factory used by the binding
  itself. It wraps the raw handle in an \<open>External\<close> and constructs an instance with it.
\<close>

definition Session_New_from_handle ::
  "nat \<Rightarrow> binding \<Rightarrow> (js_exception + jsvalue) \<times> binding" where
  "Session_New_from_handle h b = Session_New True [VExternal h] b"





section \<open>The script-world context (uv_context.cc)\<close>

text \<open>
  A unit of work is a \<open>std::function<void ()>\<close>. Of what a closure does when it runs,
  the context sees one thing only: the calls of \<open>Schedule\<close> on this same context made
  while it runs. \<open>Work n fs\<close> is the closure with identity \<open>n\<close> during whose run the
  closures \<open>fs\<close> are handed to \<open>Schedule\<close>, in the order of their critical sections
  (by the closure itself, or by producers on other threads in the meantime).
\<close>

datatype work = Work nat "work list"

fun work_id :: "work \<Rightarrow> nat" where
  "work_id (Work n fs) = n"

fun posts :: "work \<Rightarrow> work list" where
  "posts (Work n fs) = fs"

text \<open>
  The calls into libuv and GLib and the steps on the queue, in the order in which a
  context performs them.
\<close>

datatype effect =
    uv_ref
  | uv_unref
  | uv_async_send
  | g_mutex_lock
  | g_mutex_unlock
  | Enqueued nat
  | Dequeued nat
  | Executed nat
  | Deleted nat

text \<open>
  The members of \<open>UVContext\<close> that the operations below use (uv_context.h is not among
  the sources; the names are those of uv_context.cc without the trailing underscore).
  \<open>usage_count\<close> is modelled as an unbounded integer: it counts live usage monitors and
  stays far below any machine width. \<open>async_referenced\<close> is the reference flag of the
  handle \<open>async_\<close>: whether the handle keeps the loop alive. \<open>mutex_held\<close> is the state of
  \<open>mutex_\<close> as the running thread sees it, \<open>pending\<close> the list \<open>pending_\<close> from its head,
  and \<open>history\<close> the effects performed so far.
\<close>

record uv_ctx =
  usage_count :: int
  async_referenced :: bool
  mutex_held :: bool
  pending :: "work list"
  history :: "effect list"

text \<open>libuv: \<open>uv_ref\<close> and \<open>uv_unref\<close> set and clear the reference flag of a handle.\<close>

definition uv_ref_handle :: "uv_ctx \<Rightarrow> uv_ctx" where
  "uv_ref_handle c = c\<lparr>async_referenced := True, history := history c @ [uv_ref]\<rparr>"

definition uv_unref_handle :: "uv_ctx \<Rightarrow> uv_ctx" where
  "uv_unref_handle c = c\<lparr>async_referenced := False, history := history c @ [uv_unref]\<rparr>"

definition uv_async_send_handle :: "uv_ctx \<Rightarrow> uv_ctx" where
  "uv_async_send_handle c = c\<lparr>history := history c @ [uv_async_send]\<rparr>"

text \<open>
  \<open>UVContext::UVContext\<close>: the counter starts at zero and the queue empty;
  \<open>uv_async_init\<close> leaves the new handle referenced, and the constructor unreferences it
  at once, which is the first effect of the history.
\<close>

definition UVContext_new :: uv_ctx where
  "UVContext_new =
     uv_unref_handle
       \<lparr>usage_count = 0, async_referenced = True, mutex_held = False,
        pending = [], history = []\<rparr>"

text \<open>\<open>UVContext::IncreaseUsage\<close>: \<open>if (++usage_count_ == 1) uv_ref(...)\<close>.\<close>

definition IncreaseUsage :: "uv_ctx \<Rightarrow> uv_ctx" where
  "IncreaseUsage c =
     (let c1 = c\<lparr>usage_count := usage_count c + 1\<rparr>
      in if usage_count c1 = 1 then uv_ref_handle c1 else c1)"

text \<open>\<open>UVContext::DecreaseUsage\<close>: \<open>if (usage_count_-- == 1) uv_unref(...)\<close>.\<close>

definition DecreaseUsage :: "uv_ctx \<Rightarrow> uv_ctx" where
  "DecreaseUsage c =
     (let old = usage_count c;
          c1 = c\<lparr>usage_count := old - 1\<rparr>
      in if old = 1 then uv_unref_handle c1 else c1)"

text \<open>A sequence of calls of the two, in any order and number.\<close>

datatype usage_call = Increase | Decrease

fun run_usage :: "usage_call list \<Rightarrow> uv_ctx \<Rightarrow> uv_ctx" where
  "run_usage [] c = c"
| "run_usage (Increase # calls) c = run_usage calls (IncreaseUsage c)"
| "run_usage (Decrease # calls) c = run_usage calls (DecreaseUsage c)"

text \<open>
  The mutex is not recursive: a thread that locks it while holding it never proceeds.
  That outcome is the fault \<open>Deadlock\<close>.
\<close>

datatype fault = Deadlock

definition UV_CONTEXT_LOCK :: "uv_ctx \<Rightarrow> fault + uv_ctx" where
  "UV_CONTEXT_LOCK c =
     (if mutex_held c then Inl Deadlock
      else Inr (c\<lparr>mutex_held := True, history := history c @ [g_mutex_lock]\<rparr>))"

definition UV_CONTEXT_UNLOCK :: "uv_ctx \<Rightarrow> uv_ctx" where
  "UV_CONTEXT_UNLOCK c = c\<lparr>mutex_held := False, history := history c @ [g_mutex_unlock]\<rparr>"

text \<open>\<open>g_slist_append\<close> adds at the tail; \<open>g_slist_delete_link(l, l)\<close> drops the head.\<close>

definition g_slist_append :: "'a list \<Rightarrow> 'a \<Rightarrow> 'a list" where
  "g_slist_append l x = l @ [x]"

definition g_slist_delete_first_link :: "'a list \<Rightarrow> 'a list" where
  "g_slist_delete_first_link l = tl l"

text \<open>\<open>UVContext::Schedule\<close>.\<close>

definition Schedule :: "work \<Rightarrow> uv_ctx \<Rightarrow> fault + uv_ctx" where
  "Schedule f c =
     (case UV_CONTEXT_LOCK c of
        Inl e \<Rightarrow> Inl e
      | Inr c1 \<Rightarrow>
          let c2 = c1\<lparr>pending := g_slist_append (pending c1) f,
                     history := history c1 @ [Enqueued (work_id f)]\<rparr>;
              c3 = UV_CONTEXT_UNLOCK c2
          in Inr (uv_async_send_handle c3))"

text \<open>
  \<open>(*work)()\<close>: the closure starts, and the closures it posts are scheduled in turn.
\<close>

fun schedule_all :: "work list \<Rightarrow> uv_ctx \<Rightarrow> fault + uv_ctx" where
  "schedule_all [] c = Inr c"
| "schedule_all (f # fs) c =
     (case Schedule f c of Inl e \<Rightarrow> Inl e | Inr c1 \<Rightarrow> schedule_all fs c1)"

definition run_work :: "work \<Rightarrow> uv_ctx \<Rightarrow> fault + uv_ctx" where
  "run_work w c = schedule_all (posts w) (c\<lparr>history := history c @ [Executed (work_id w)]\<rparr>)"

text \<open>
  The body of the loop of \<open>UVContext::ProcessPending\<close> for the head \<open>w\<close> of the queue
  (\<open>pending_->data\<close>), entered with the lock held and left with the lock held again.
\<close>

definition loop_body :: "work \<Rightarrow> uv_ctx \<Rightarrow> fault + uv_ctx" where
  "loop_body w c =
     (let c1 = c\<lparr>pending := g_slist_delete_first_link (pending c),
                   history := history c @ [Dequeued (work_id w)]\<rparr>;
          c2 = UV_CONTEXT_UNLOCK c1
      in case run_work w c2 of
           Inl e \<Rightarrow> Inl e
         | Inr c3 \<Rightarrow> UV_CONTEXT_LOCK (c3\<lparr>history := history c3 @ [Deleted (work_id w)]\<rparr>))"

text \<open>What a successful step leaves in the queue; the loop below terminates by it.\<close>

lemma Schedule_pending:
  "Schedule f c = Inr c' \<Longrightarrow> pending c' = pending c @ [f]"
  by (auto simp: Schedule_def UV_CONTEXT_LOCK_def UV_CONTEXT_UNLOCK_def uv_async_send_handle_def
      g_slist_append_def Let_def split: if_splits)

lemma schedule_all_pending:
  "schedule_all fs c = Inr c' \<Longrightarrow> pending c' = pending c @ fs"
proof (induction fs arbitrary: c)
  case Nil
  then show ?case by simp
next
  case (Cons f fs)
  then show ?case by (auto split: sum.splits dest: Schedule_pending)
qed

lemma run_work_pending:
  "run_work w c = Inr c' \<Longrightarrow> pending c' = pending c @ posts w"
  by (auto simp: run_work_def dest: schedule_all_pending)

lemma loop_body_pending:
  "loop_body w c = Inr c' \<Longrightarrow> pending c' = tl (pending c) @ posts w"
  by (auto simp: loop_body_def Let_def UV_CONTEXT_LOCK_def UV_CONTEXT_UNLOCK_def
      g_slist_delete_first_link_def split: sum.splits if_splits dest!: run_work_pending)

lemma size_posts: "size_list size (posts w) < size w"
  by (cases w) simp

text \<open>
  The loop of \<open>UVContext::ProcessPending\<close>, \<open>while (pending_ != NULL) { ... }\<close>, entered
  with the lock held.
\<close>

function drain :: "uv_ctx \<Rightarrow> fault + uv_ctx" where
  "drain c =
     (case pending c of
        [] \<Rightarrow> Inr c
      | w # rest \<Rightarrow> (case loop_body w c of Inl e \<Rightarrow> Inl e | Inr c' \<Rightarrow> drain c'))"
  by pat_completeness auto
termination
proof (relation "measure (\<lambda>c. size_list size (pending c))")
  show "wf (measure (\<lambda>c. size_list size (pending c)))" by simp
next
  fix c :: uv_ctx and w rest c'
  assume "pending c = w # rest" and "loop_body w c = Inr c'"
  then have "pending c' = rest @ posts w"
    by (auto dest: loop_body_pending)
  with \<open>pending c = w # rest\<close> size_posts [of w]
  show "(c', c) \<in> measure (\<lambda>c. size_list size (pending c))"
    by simp
qed

declare drain.simps [simp del]

text \<open>\<open>UVContext::ProcessPending\<close>.\<close>

definition ProcessPending :: "uv_ctx \<Rightarrow> fault + uv_ctx" where
  "ProcessPending c =
     (case UV_CONTEXT_LOCK c of
        Inl e \<Rightarrow> Inl e
      | Inr c1 \<Rightarrow> (case drain c1 of Inl e \<Rightarrow> Inl e | Inr c2 \<Rightarrow> Inr (UV_CONTEXT_UNLOCK c2)))"

text \<open>A sequence of calls on one context, stopped by the first fault.\<close>

datatype uv_call = CallSchedule work | CallProcessPending

fun run_calls :: "uv_call list \<Rightarrow> uv_ctx \<Rightarrow> fault + uv_ctx" where
  "run_calls [] c = Inr c"
| "run_calls (CallSchedule f # calls) c =
     (case Schedule f c of Inl e \<Rightarrow> Inl e | Inr c1 \<Rightarrow> run_calls calls c1)"
| "run_calls (CallProcessPending # calls) c =
     (case ProcessPending c of Inl e \<Rightarrow> Inl e | Inr c1 \<Rightarrow> run_calls calls c1)"

text \<open>The closures appended to the queue, and the closures run, each in order.\<close>

fun enqueued :: "effect list \<Rightarrow> nat list" where
  "enqueued [] = []"
| "enqueued (Enqueued n # es) = n # enqueued es"
| "enqueued (e # es) = enqueued es"

fun executed :: "effect list \<Rightarrow> nat list" where
  "executed [] = []"
| "executed (Executed n # es) = n # executed es"
| "executed (e # es) = executed es"

text \<open>
  \<open>held_after h es\<close>: whether the mutex is held after the effects \<open>es\<close>, when \<open>h\<close> says
  whether it was held before. \<open>runs_unlocked h es\<close>: no closure of \<open>es\<close> starts while the
  mutex is held.
\<close>

fun held_after :: "bool \<Rightarrow> effect list \<Rightarrow> bool" where
  "held_after h [] = h"
| "held_after h (g_mutex_lock # es) = held_after True es"
| "held_after h (g_mutex_unlock # es) = held_after False es"
| "held_after h (e # es) = held_after h es"

fun runs_unlocked :: "bool \<Rightarrow> effect list \<Rightarrow> bool" where
  "runs_unlocked h [] = True"
| "runs_unlocked h (g_mutex_lock # es) = runs_unlocked True es"
| "runs_unlocked h (g_mutex_unlock # es) = runs_unlocked False es"
| "runs_unlocked h (Executed n # es) = (\<not> h \<and> runs_unlocked h es)"
| "runs_unlocked h (e # es) = runs_unlocked h es"

text \<open>
  The drain as the interface describes it. \<open>drain_order q\<close> is the order in which a drain
  that finds the queue \<open>q\<close> runs closures: the head first, and what the head posts goes
  behind the rest. \<open>post_effects f\<close> are the effects of one \<open>schedule\<close>; \<open>item_effects w\<close>
  those of one round of the drain on \<open>w\<close>: remove it, release the lock, run it (with the
  posts it makes), free it, take the lock again. \<open>drain_effects q\<close> are the effects of a
  whole drain: take the lock, one round per closure, release the lock.
\<close>

function drain_order :: "work list \<Rightarrow> work list" where
  "drain_order [] = []"
| "drain_order (w # q) = w # drain_order (q @ posts w)"
  by pat_completeness auto
termination
  by (relation "measure (size_list size)") (auto simp: less_Suc_eq_le intro: less_imp_le size_posts)

definition post_effects :: "work \<Rightarrow> effect list" where
  "post_effects f = [g_mutex_lock, Enqueued (work_id f), g_mutex_unlock, uv_async_send]"

definition item_effects :: "work \<Rightarrow> effect list" where
  "item_effects w =
     [Dequeued (work_id w), g_mutex_unlock, Executed (work_id w)]
     @ concat (map post_effects (posts w))
     @ [Deleted (work_id w), g_mutex_lock]"

definition drain_effects :: "work list \<Rightarrow> effect list" where
  "drain_effects q =
     [g_mutex_lock] @ concat (map item_effects (drain_order q)) @ [g_mutex_unlock]"

text \<open>
  The states of a context in use: it is constructed, its usage is increased at any time
  and decreased while it is in use (the state machine of the counter has no decrease
  from idle: a usage monitor is disabled only after it was enabled), and work is
  scheduled and drained.
\<close>

inductive reachable :: "uv_ctx \<Rightarrow> bool" where
  reach_new: "reachable UVContext_new"
| reach_increase: "reachable c \<Longrightarrow> reachable (IncreaseUsage c)"
| reach_decrease: "reachable c \<Longrightarrow> 0 < usage_count c \<Longrightarrow> reachable (DecreaseUsage c)"
| reach_schedule: "reachable c \<Longrightarrow> Schedule f c = Inr c' \<Longrightarrow> reachable c'"
| reach_process: "reachable c \<Longrightarrow> ProcessPending c = Inr c' \<Longrightarrow> reachable c'"

section \<open>The JSON facility, as a script sees it\<close>

text \<open>
  The JSON facility of the script runtime, as a script sees it: \<open>JSON.stringify(v)\<close> and
  \<open>JSON.parse(j)\<close> evaluated against a global object. A value is JSON-round-trippable
  (up to the equivalence \<open>same\<close> of script values) when stringify yields a string for it
  that parse takes back to an equivalent value.
\<close>

definition JSON_stringify :: "script_engine \<Rightarrow> jsvalue \<Rightarrow> jsvalue \<Rightarrow> jsvalue option" where
  "JSON_stringify engine global v =
     Call engine (Get (Get global ''JSON'') ''stringify'') (Get global ''JSON'') [v]"

definition JSON_parse :: "script_engine \<Rightarrow> jsvalue \<Rightarrow> jsvalue \<Rightarrow> jsvalue option" where
  "JSON_parse engine global j =
     Call engine (Get (Get global ''JSON'') ''parse'') (Get global ''JSON'') [j]"

definition json_round_trippable ::
  "script_engine \<Rightarrow> (jsvalue \<Rightarrow> jsvalue \<Rightarrow> bool) \<Rightarrow> jsvalue \<Rightarrow> jsvalue \<Rightarrow> bool" where
  "json_round_trippable engine same global v =
     (case JSON_stringify engine global v of
        None \<Rightarrow> False
      | Some j \<Rightarrow> IsString j \<and>
          (case JSON_parse engine global j of None \<Rightarrow> False | Some v' \<Rightarrow> same v' v))"

text \<open>
  A small script engine for examples: function 1 turns \<open>true\<close> into the string \<open>true\<close>,
  function 2 turns the string back, and no other call returns. In the example global
  object they are \<open>JSON.stringify\<close> and \<open>JSON.parse\<close>.
\<close>

definition example_engine :: script_engine where
  "example_engine k recv argv =
     (if k = 1 \<and> argv = [VBoolean True] then Some (VString ''true'')
      else if k = 2 \<and> argv = [VString ''true''] then Some (VBoolean True)
      else None)"

definition example_global :: jsvalue where
  "example_global = VObject [(''JSON'', VObject [(''stringify'', VFunction 1), (''parse'', VFunction 2)])]"

section \<open>Perform, across two threads (uv_context.cc)\<close>

text \<open>
  \<open>Perform\<close> is called on a thread other than the one that runs the loop, so its model
  has both threads and the mutex between them. Each thread is at a program point, and a
  step of a thread runs one statement of the source. The actors are the thread that
  called \<open>Perform\<close>, the loop thread, and other producers: \<open>Producer n\<close> posts the closure
  \<open>n\<close> with a whole \<open>Schedule\<close> of its own.
\<close>

datatype actor = Caller | LoopThread | Producer nat

text \<open>
  What the queue holds: the closure that \<open>Perform\<close> builds around \<open>f\<close>, or the work of
  another producer.
\<close>

datatype closure = PerformWrapper | OtherWork nat

text \<open>
  The program points of the caller, in \<open>Perform\<close> and in the \<open>Schedule\<close> it calls:
  \<open>P_enter\<close> before \<open>finished = false\<close>; \<open>P_schedule_lock\<close>, \<open>P_schedule_append\<close>,
  \<open>P_schedule_unlock\<close> and \<open>P_schedule_send\<close> before the four statements of \<open>Schedule\<close>;
  \<open>P_lock\<close> before the lock of \<open>Perform\<close>; \<open>P_test\<close> at \<open>while (!finished)\<close>; \<open>P_wait\<close>
  before \<open>g_cond_wait\<close>, which releases the mutex and sleeps (\<open>P_sleeping\<close>) and, once
  woken (\<open>P_woken\<close>), takes the mutex again; \<open>P_unlock\<close> before the last unlock;
  \<open>P_returned\<close> after the return.
\<close>

datatype caller_pc =
    P_enter
  | P_schedule_lock
  | P_schedule_append
  | P_schedule_unlock
  | P_schedule_send
  | P_lock
  | P_test
  | P_wait
  | P_sleeping
  | P_woken
  | P_unlock
  | P_returned

text \<open>
  The program points of the loop thread, in \<open>ProcessPending\<close> and in the closure of
  \<open>Perform\<close>: \<open>L_idle\<close> outside \<open>ProcessPending\<close>; \<open>L_lock\<close> before its first lock;
  \<open>L_test\<close> at the loop condition, with the removal of the head; \<open>L_unlock\<close> before
  the unlock; \<open>L_call\<close> before \<open>(*work)()\<close>; inside the closure \<open>W_f\<close> while \<open>f()\<close> runs,
  then \<open>W_lock\<close>, \<open>W_set\<close> (\<open>finished = true\<close>), \<open>W_signal\<close> and \<open>W_unlock\<close>;
  \<open>L_delete\<close> before \<open>delete work\<close>; \<open>L_relock\<close> before the lock that ends the round;
  \<open>L_final_unlock\<close> before the unlock after the loop.
\<close>

datatype loop_pc =
    L_idle
  | L_lock
  | L_test
  | L_unlock
  | L_call
  | W_f
  | W_lock
  | W_set
  | W_signal
  | W_unlock
  | L_delete
  | L_relock
  | L_final_unlock

text \<open>What is observed of a run, with the thread on which it happens.\<close>

datatype perform_event =
    F_started
  | F_completed
  | Finished_set
  | Cond_signalled
  | Perform_returned
  | Other_ran nat

text \<open>
  The shared state: the owner of \<open>mutex_\<close>, the list \<open>pending_\<close>, the flag \<open>finished\<close> of
  the call, whether \<open>uv_async_send\<close> has been called since the loop last started its
  callback, where the two threads are, the closure the loop thread has in hand, and the
  events so far.
\<close>

record threads =
  mutex_owner :: "actor option"
  queue :: "closure list"
  finished :: bool
  async_sent :: bool
  caller_at :: caller_pc
  loop_at :: loop_pc
  loop_work :: "closure option"
  trace :: "(actor \<times> perform_event) list"

text \<open>
  Both threads at rest, nothing queued. Producers and the loop thread may run for any
  time before the caller takes its first step.
\<close>

definition Perform_init :: threads where
  "Perform_init =
     \<lparr>mutex_owner = None, queue = [], finished = False, async_sent = False,
      caller_at = P_enter, loop_at = L_idle, loop_work = None, trace = []\<rparr>"

text \<open>
  A step of a thread; \<open>None\<close> when the thread cannot move (it waits for the mutex, or it
  has returned). \<open>g_cond_wait\<close> may wake without a signal, so a sleeping caller can
  always wake.
\<close>

fun caller_step :: "caller_pc \<Rightarrow> threads \<Rightarrow> threads option" where
  "caller_step P_enter s = Some (s\<lparr>finished := False, caller_at := P_schedule_lock\<rparr>)"
| "caller_step P_schedule_lock s =
     (if mutex_owner s = None
      then Some (s\<lparr>mutex_owner := Some Caller, caller_at := P_schedule_append\<rparr>)
      else None)"
| "caller_step P_schedule_append s =
     Some (s\<lparr>queue := g_slist_append (queue s) PerformWrapper, caller_at := P_schedule_unlock\<rparr>)"
| "caller_step P_schedule_unlock s =
     Some (s\<lparr>mutex_owner := None, caller_at := P_schedule_send\<rparr>)"
| "caller_step P_schedule_send s = Some (s\<lparr>async_sent := True, caller_at := P_lock\<rparr>)"
| "caller_step P_lock s =
     (if mutex_owner s = None
      then Some (s\<lparr>mutex_owner := Some Caller, caller_at := P_test\<rparr>)
      else None)"
| "caller_step P_test s =
     (if \<not> finished s then Some (s\<lparr>caller_at := P_wait\<rparr>)
      else Some (s\<lparr>caller_at := P_unlock\<rparr>))"
| "caller_step P_wait s = Some (s\<lparr>mutex_owner := None, caller_at := P_sleeping\<rparr>)"
| "caller_step P_sleeping s = Some (s\<lparr>caller_at := P_woken\<rparr>)"
| "caller_step P_woken s =
     (if mutex_owner s = None
      then Some (s\<lparr>mutex_owner := Some Caller, caller_at := P_test\<rparr>)
      else None)"
| "caller_step P_unlock s =
     Some (s\<lparr>mutex_owner := None, caller_at := P_returned,
             trace := trace s @ [(Caller, Perform_returned)]\<rparr>)"
| "caller_step P_returned s = None"

text \<open>
  The loop starts its callback, which calls \<open>ProcessPending\<close>, after \<open>uv_async_send\<close>.
  \<open>g_cond_signal\<close> wakes the caller when it sleeps.
\<close>

fun loop_step :: "loop_pc \<Rightarrow> threads \<Rightarrow> threads option" where
  "loop_step L_idle s =
     (if async_sent s then Some (s\<lparr>async_sent := False, loop_at := L_lock\<rparr>) else None)"
| "loop_step L_lock s =
     (if mutex_owner s = None
      then Some (s\<lparr>mutex_owner := Some LoopThread, loop_at := L_test\<rparr>)
      else None)"
| "loop_step L_test s =
     (case queue s of
        [] \<Rightarrow> Some (s\<lparr>loop_at := L_final_unlock\<rparr>)
      | w # rest \<Rightarrow>
          Some (s\<lparr>loop_work := Some w, queue := g_slist_delete_first_link (queue s),
                  loop_at := L_unlock\<rparr>))"
| "loop_step L_unlock s = Some (s\<lparr>mutex_owner := None, loop_at := L_call\<rparr>)"
| "loop_step L_call s =
     (case loop_work s of
        None \<Rightarrow> None
      | Some PerformWrapper \<Rightarrow>
          Some (s\<lparr>loop_at := W_f, trace := trace s @ [(LoopThread, F_started)]\<rparr>)
      | Some (OtherWork n) \<Rightarrow>
          Some (s\<lparr>loop_at := L_delete, trace := trace s @ [(LoopThread, Other_ran n)]\<rparr>))"
| "loop_step W_f s =
     Some (s\<lparr>loop_at := W_lock, trace := trace s @ [(LoopThread, F_completed)]\<rparr>)"
| "loop_step W_lock s =
     (if mutex_owner s = None
      then Some (s\<lparr>mutex_owner := Some LoopThread, loop_at := W_set\<rparr>)
      else None)"
| "loop_step W_set s =
     Some (s\<lparr>finished := True, loop_at := W_signal,
             trace := trace s @ [(LoopThread, Finished_set)]\<rparr>)"
| "loop_step W_signal s =
     Some (s\<lparr>caller_at := (if caller_at s = P_sleeping then P_woken else caller_at s),
             loop_at := W_unlock, trace := trace s @ [(LoopThread, Cond_signalled)]\<rparr>)"
| "loop_step W_unlock s = Some (s\<lparr>mutex_owner := None, loop_at := L_delete\<rparr>)"
| "loop_step L_delete s = Some (s\<lparr>loop_work := None, loop_at := L_relock\<rparr>)"
| "loop_step L_relock s =
     (if mutex_owner s = None
      then Some (s\<lparr>mutex_owner := Some LoopThread, loop_at := L_test\<rparr>)
      else None)"
| "loop_step L_final_unlock s = Some (s\<lparr>mutex_owner := None, loop_at := L_idle\<rparr>)"

definition producer_step :: "nat \<Rightarrow> threads \<Rightarrow> threads option" where
  "producer_step n s =
     (if mutex_owner s = None
      then Some (s\<lparr>queue := g_slist_append (queue s) (OtherWork n), async_sent := True\<rparr>)
      else None)"

fun thread_step :: "actor \<Rightarrow> threads \<Rightarrow> threads option" where
  "thread_step Caller s = caller_step (caller_at s) s"
| "thread_step LoopThread s = loop_step (loop_at s) s"
| "thread_step (Producer n) s = producer_step n s"

text \<open>
  A run under a schedule: the threads take steps in the order the schedule names them;
  a thread that cannot move when named stays where it is.
\<close>

fun run_threads :: "actor list \<Rightarrow> threads \<Rightarrow> threads" where
  "run_threads [] s = s"
| "run_threads (a # as) s =
     (case thread_step a s of None \<Rightarrow> run_threads as s | Some s' \<Rightarrow> run_threads as s')"

text \<open>
  An example schedule: the caller runs until it sleeps in \<open>g_cond_wait\<close>, the loop
  thread drains the queue, and the caller wakes and returns.
\<close>

definition waiting_schedule :: "actor list" where
  "waiting_schedule =
     [Caller, Caller, Caller, Caller, Caller, Caller, Caller, Caller,
      LoopThread, LoopThread, LoopThread, LoopThread, LoopThread, LoopThread, LoopThread,
      LoopThread, LoopThread, LoopThread, LoopThread, LoopThread, LoopThread, LoopThread,
      Caller, Caller, Caller]"

text \<open>
  The invariants of the two-thread model: what the flag and the program points say
  about the events so far, and who owns the mutex where.
\<close>

definition order_inv :: "threads \<Rightarrow> bool" where
  "order_inv s =
     ((finished s \<longrightarrow> (LoopThread, F_completed) \<in> set (trace s)
                      \<and> (LoopThread, Finished_set) \<in> set (trace s))
      \<and> (loop_at s \<in> {W_lock, W_set, W_signal, W_unlock} \<longrightarrow>
           (LoopThread, F_completed) \<in> set (trace s))
      \<and> (loop_at s \<in> {W_signal, W_unlock} \<longrightarrow> (LoopThread, Finished_set) \<in> set (trace s))
      \<and> (caller_at s \<in> {P_unlock, P_returned} \<longrightarrow> finished s)
      \<and> ((LoopThread, Finished_set) \<in> set (trace s) \<longrightarrow>
           precedes (LoopThread, F_completed) (LoopThread, Finished_set) (trace s))
      \<and> ((LoopThread, Cond_signalled) \<in> set (trace s) \<longrightarrow>
           precedes (LoopThread, Finished_set) (LoopThread, Cond_signalled) (trace s))
      \<and> ((Caller, Perform_returned) \<in> set (trace s) \<longrightarrow>
           precedes (LoopThread, F_completed) (Caller, Perform_returned) (trace s))
      \<and> (caller_at s = P_returned \<longrightarrow> (Caller, Perform_returned) \<in> set (trace s))
      \<and> (\<forall>a. (a, F_completed) \<in> set (trace s) \<longrightarrow> a = LoopThread))"

definition mutex_inv :: "threads \<Rightarrow> bool" where
  "mutex_inv s =
     ((mutex_owner s = Some Caller \<longleftrightarrow>
           caller_at s \<in> {P_schedule_append, P_schedule_unlock, P_test, P_wait, P_unlock})
      \<and> (mutex_owner s = Some LoopThread \<longleftrightarrow>
           loop_at s \<in> {L_test, L_unlock, W_set, W_signal, W_unlock, L_final_unlock})
      \<and> (\<forall>n. mutex_owner s \<noteq> Some (Producer n)))"

section \<open>Teardown order\<close>

text \<open>
  C1, as the code has it. After the three JSON handles are reset and the registry table
  is released, the destructor deletes the native-world (GLib) context first and the
  script-world (UV) context last: the effects of the destructor are exactly the six
  below, in this order, so the GLib deletion precedes the UV deletion and the UV
  deletion does not precede the GLib deletion.
\<close>

theorem Runtime_destroy_order:
  "Runtime_destroy r =
     [ResetJsonParse, ResetJsonStringify, ResetJsonModule, HashTableUnref,
      DeleteGLibContext (glib_context r), DeleteUVContext (uv_context r)]
   \<and> precedes (DeleteGLibContext (glib_context r)) (DeleteUVContext (uv_context r))
        (Runtime_destroy r)
   \<and> \<not> precedes (DeleteUVContext (uv_context r)) (DeleteGLibContext (glib_context r))
        (Runtime_destroy r)"
  by (simp add: Runtime_destroy_def precedes_def)

text \<open>The order at a runtime with the UV context at address 1 and the GLib context at 2.\<close>

theorem Runtime_destroy_order_witness:
  "precedes (DeleteGLibContext 2) (DeleteUVContext 1)
     (Runtime_destroy (Runtime_new 1 2 (VObject [])))"
  using Runtime_destroy_order [of "Runtime_new 1 2 (VObject [])", THEN conjunct2, THEN conjunct1]
  by (simp add: Runtime_new_def)

text \<open>
  C1, as the specification states it, fails: for a runtime holding the UV context at
  address 1 and the GLib context at address 2, the deletion of the UV context does not
  come before the deletion of the GLib context.
\<close>

theorem Runtime_destroy_uv_first_counterexample:
  "\<not> precedes (DeleteUVContext 1) (DeleteGLibContext 2)
       (Runtime_destroy (Runtime_new 1 2 (VObject [])))"
  by (simp add: Runtime_destroy_def Runtime_new_def precedes_def)

section \<open>The usage counter and the async handle\<close>

text \<open>Scheduling and draining leave the counter and the reference flag alone.\<close>

lemma Schedule_frame:
  "Schedule f c = Inr c' \<Longrightarrow>
     usage_count c' = usage_count c \<and> async_referenced c' = async_referenced c"
  by (auto simp: Schedule_def UV_CONTEXT_LOCK_def UV_CONTEXT_UNLOCK_def uv_async_send_handle_def
      Let_def split: if_splits)

lemma schedule_all_frame:
  "schedule_all fs c = Inr c' \<Longrightarrow>
     usage_count c' = usage_count c \<and> async_referenced c' = async_referenced c"
proof (induction fs arbitrary: c)
  case Nil
  then show ?case by simp
next
  case (Cons f fs)
  then show ?case by (auto split: sum.splits dest: Schedule_frame)
qed

lemma loop_body_frame:
  "loop_body w c = Inr c' \<Longrightarrow>
     usage_count c' = usage_count c \<and> async_referenced c' = async_referenced c"
  by (auto simp: loop_body_def run_work_def Let_def UV_CONTEXT_LOCK_def UV_CONTEXT_UNLOCK_def
      split: sum.splits if_splits dest!: schedule_all_frame)

lemma drain_frame:
  "drain c = Inr c' \<Longrightarrow>
     usage_count c' = usage_count c \<and> async_referenced c' = async_referenced c"
proof (induction c rule: drain.induct)
  case (1 c)
  show ?case
  proof (cases "pending c")
    case Nil
    with "1.prems" show ?thesis by (simp add: drain.simps)
  next
    case (Cons w rest)
    with "1.prems" obtain c1 where b: "loop_body w c = Inr c1" and d: "drain c1 = Inr c'"
      by (auto simp: drain.simps [of c] split: sum.splits)
    from "1.IH" [OF Cons b d] loop_body_frame [OF b] show ?thesis by simp
  qed
qed

lemma ProcessPending_frame:
  "ProcessPending c = Inr c' \<Longrightarrow>
     usage_count c' = usage_count c \<and> async_referenced c' = async_referenced c"
  by (auto simp: ProcessPending_def UV_CONTEXT_LOCK_def UV_CONTEXT_UNLOCK_def
      split: sum.splits if_splits dest!: drain_frame)

lemma reachable_referenced_iff_positive:
  "reachable c \<Longrightarrow> async_referenced c = (0 < usage_count c)"
proof (induction rule: reachable.induct)
  case reach_new
  show ?case by (simp add: UVContext_new_def uv_unref_handle_def)
next
  case (reach_increase c)
  then show ?case by (auto simp: IncreaseUsage_def uv_ref_handle_def Let_def)
next
  case (reach_decrease c)
  then show ?case by (auto simp: DecreaseUsage_def uv_unref_handle_def Let_def)
next
  case (reach_schedule c f c')
  then show ?case using Schedule_frame by simp
next
  case (reach_process c c')
  then show ?case using ProcessPending_frame by simp
qed

lemma reachable_nonnegative: "reachable c \<Longrightarrow> 0 \<le> usage_count c"
proof (induction rule: reachable.induct)
  case reach_new
  show ?case by (simp add: UVContext_new_def uv_unref_handle_def)
next
  case (reach_increase c)
  then show ?case by (auto simp: IncreaseUsage_def uv_ref_handle_def Let_def)
next
  case (reach_decrease c)
  then show ?case by (auto simp: DecreaseUsage_def uv_unref_handle_def Let_def)
next
  case (reach_schedule c f c')
  then show ?case using Schedule_frame by simp
next
  case (reach_process c c')
  then show ?case using ProcessPending_frame by simp
qed

lemma run_usage_referenced:
  "async_referenced c = (0 < usage_count c) \<Longrightarrow>
   async_referenced (run_usage calls c) = (0 < usage_count (run_usage calls c))"
proof (induction calls arbitrary: c)
  case Nil
  then show ?case by simp
next
  case (Cons a calls)
  show ?case
  proof (cases a)
    case Increase
    from Cons.prems have "async_referenced (IncreaseUsage c) = (0 < usage_count (IncreaseUsage c))"
      by (auto simp: IncreaseUsage_def uv_ref_handle_def Let_def)
    from Cons.IH [OF this] Increase show ?thesis by simp
  next
    case Decrease
    from Cons.prems have "async_referenced (DecreaseUsage c) = (0 < usage_count (DecreaseUsage c))"
      by (auto simp: DecreaseUsage_def uv_unref_handle_def Let_def)
    from Cons.IH [OF this] Decrease show ?thesis by simp
  qed
qed

text \<open>
  C2. A new context has the counter at zero and the handle unreferenced. In every
  reachable state the handle is unreferenced iff the counter is zero, and referenced iff
  the counter is positive. An increase from zero references the handle, with exactly one
  \<open>uv_ref\<close>; a decrease from one unreferences it, with exactly one \<open>uv_unref\<close>; every
  other increase or decrease leaves the flag as it was and calls neither. After any
  sequence of increases and decreases whatever, the handle is referenced iff the counter
  is positive.
\<close>

theorem usage_counter_reference:
  "usage_count UVContext_new = 0 \<and> \<not> async_referenced UVContext_new
   \<and> (reachable c \<longrightarrow>
        (\<not> async_referenced c \<longleftrightarrow> usage_count c = 0)
        \<and> (async_referenced c \<longleftrightarrow> 0 < usage_count c))
   \<and> (usage_count c = 0 \<longrightarrow>
        usage_count (IncreaseUsage c) = 1 \<and> async_referenced (IncreaseUsage c)
        \<and> history (IncreaseUsage c) = history c @ [uv_ref])
   \<and> (usage_count c = 1 \<longrightarrow>
        usage_count (DecreaseUsage c) = 0 \<and> \<not> async_referenced (DecreaseUsage c)
        \<and> history (DecreaseUsage c) = history c @ [uv_unref])
   \<and> (usage_count c \<noteq> 0 \<longrightarrow>
        usage_count (IncreaseUsage c) = usage_count c + 1
        \<and> async_referenced (IncreaseUsage c) = async_referenced c
        \<and> history (IncreaseUsage c) = history c)
   \<and> (usage_count c \<noteq> 1 \<longrightarrow>
        usage_count (DecreaseUsage c) = usage_count c - 1
        \<and> async_referenced (DecreaseUsage c) = async_referenced c
        \<and> history (DecreaseUsage c) = history c)
   \<and> (async_referenced (run_usage calls UVContext_new) \<longleftrightarrow>
        0 < usage_count (run_usage calls UVContext_new))"
proof -
  have init: "usage_count UVContext_new = 0 \<and> \<not> async_referenced UVContext_new"
    by (simp add: UVContext_new_def uv_unref_handle_def)
  have inv: "reachable c \<longrightarrow>
        (\<not> async_referenced c \<longleftrightarrow> usage_count c = 0)
        \<and> (async_referenced c \<longleftrightarrow> 0 < usage_count c)"
    using reachable_referenced_iff_positive [of c] reachable_nonnegative [of c] by auto
  have inc: "usage_count c = 0 \<longrightarrow>
        usage_count (IncreaseUsage c) = 1 \<and> async_referenced (IncreaseUsage c)
        \<and> history (IncreaseUsage c) = history c @ [uv_ref]"
    by (simp add: IncreaseUsage_def uv_ref_handle_def Let_def)
  have dec: "usage_count c = 1 \<longrightarrow>
        usage_count (DecreaseUsage c) = 0 \<and> \<not> async_referenced (DecreaseUsage c)
        \<and> history (DecreaseUsage c) = history c @ [uv_unref]"
    by (simp add: DecreaseUsage_def uv_unref_handle_def Let_def)
  have inc': "usage_count c \<noteq> 0 \<longrightarrow>
        usage_count (IncreaseUsage c) = usage_count c + 1
        \<and> async_referenced (IncreaseUsage c) = async_referenced c
        \<and> history (IncreaseUsage c) = history c"
    by (simp add: IncreaseUsage_def uv_ref_handle_def Let_def)
  have dec': "usage_count c \<noteq> 1 \<longrightarrow>
        usage_count (DecreaseUsage c) = usage_count c - 1
        \<and> async_referenced (DecreaseUsage c) = async_referenced c
        \<and> history (DecreaseUsage c) = history c"
    by (simp add: DecreaseUsage_def uv_unref_handle_def Let_def)
  have any: "async_referenced (run_usage calls UVContext_new) \<longleftrightarrow>
        0 < usage_count (run_usage calls UVContext_new)"
    using init by (intro run_usage_referenced) simp
  from init inv inc dec inc' dec' any show ?thesis by blast
qed

text \<open>
  After the constructor's \<open>uv_unref\<close>: two monitors enabled and one disabled, and the
  handle stays referenced after the single \<open>uv_ref\<close>; one enabled and disabled, and the
  handle ends unreferenced, after one \<open>uv_ref\<close> and one \<open>uv_unref\<close>.
\<close>

theorem usage_counter_reference_witness:
  "reachable (DecreaseUsage (IncreaseUsage (IncreaseUsage UVContext_new)))
   \<and> usage_count (DecreaseUsage (IncreaseUsage (IncreaseUsage UVContext_new))) = 1
   \<and> async_referenced (DecreaseUsage (IncreaseUsage (IncreaseUsage UVContext_new)))
   \<and> history (DecreaseUsage (IncreaseUsage (IncreaseUsage UVContext_new))) = [uv_unref, uv_ref]
   \<and> reachable (DecreaseUsage (IncreaseUsage UVContext_new))
   \<and> usage_count (DecreaseUsage (IncreaseUsage UVContext_new)) = 0
   \<and> \<not> async_referenced (DecreaseUsage (IncreaseUsage UVContext_new))
   \<and> history (DecreaseUsage (IncreaseUsage UVContext_new)) = [uv_unref, uv_ref, uv_unref]"
proof -
  let ?c1 = "IncreaseUsage UVContext_new"
  let ?c2 = "IncreaseUsage ?c1"
  have n1: "usage_count ?c1 = 1"
    by (simp add: IncreaseUsage_def UVContext_new_def uv_unref_handle_def uv_ref_handle_def)
  have n2: "usage_count ?c2 = 2"
    by (simp add: IncreaseUsage_def UVContext_new_def uv_unref_handle_def uv_ref_handle_def)
  have r1: "reachable ?c1" by (intro reachable.intros)
  have r2: "reachable ?c2" by (intro reachable.intros)
  have r3: "reachable (DecreaseUsage ?c2)"
    using r2 n2 by (intro reach_decrease) simp_all
  have r4: "reachable (DecreaseUsage ?c1)"
    using r1 n1 by (intro reach_decrease) simp_all
  have n3: "usage_count (DecreaseUsage ?c2) = 1"
    using usage_counter_reference [of ?c2] n2 by simp
  have a3: "async_referenced (DecreaseUsage ?c2)"
    using usage_counter_reference [of "DecreaseUsage ?c2"] r3 n3 by simp
  have h1: "history ?c1 = [uv_unref, uv_ref]"
    using usage_counter_reference [of UVContext_new]
    by (simp add: UVContext_new_def uv_unref_handle_def)
  have h2: "history ?c2 = [uv_unref, uv_ref]"
    using usage_counter_reference [of ?c1] n1 h1 by simp
  have h3: "history (DecreaseUsage ?c2) = [uv_unref, uv_ref]"
    using usage_counter_reference [of ?c2] n2 h2 by simp
  have n4: "usage_count (DecreaseUsage ?c1) = 0"
    using usage_counter_reference [of ?c1] n1 by simp
  have a4: "\<not> async_referenced (DecreaseUsage ?c1)"
    using usage_counter_reference [of "DecreaseUsage ?c1"] r4 n4 by simp
  have h4: "history (DecreaseUsage ?c1) = [uv_unref, uv_ref, uv_unref]"
    using usage_counter_reference [of ?c1] n1 h1 by simp
  from r3 n3 a3 h3 r4 n4 a4 h4 show ?thesis by blast
qed

section \<open>Perform returns after the closure has run\<close>

text \<open>Where the first occurrence of an element is, and what appending does to \<open>precedes\<close>.\<close>

lemma dropWhile_first:
  "a \<notin> set ys \<Longrightarrow> dropWhile (\<lambda>x. x \<noteq> a) (ys @ a # zs) = a # zs"
  by (induction ys) auto

lemma dropWhile_absent: "a \<notin> set xs \<Longrightarrow> dropWhile (\<lambda>x. x \<noteq> a) xs = []"
  by (induction xs) auto

lemma precedes_snoc_iff:
  "precedes a b (xs @ [c]) = (precedes a b xs \<or> (a \<in> set xs \<and> b = c))"
proof (cases "a \<in> set xs")
  case True
  then obtain ys zs where xs: "xs = ys @ a # zs" and n: "a \<notin> set ys"
    by (auto dest: split_list_first)
  from n have "dropWhile (\<lambda>x. x \<noteq> a) (ys @ a # (zs @ [c])) = a # (zs @ [c])"
    by (rule dropWhile_first)
  moreover from n have "dropWhile (\<lambda>x. x \<noteq> a) (ys @ a # zs) = a # zs"
    by (rule dropWhile_first)
  ultimately show ?thesis using True xs by (auto simp: precedes_def)
next
  case False
  then have "dropWhile (\<lambda>x. x \<noteq> a) xs = []" by (rule dropWhile_absent)
  moreover from False have "dropWhile (\<lambda>x. x \<noteq> a) (xs @ [c]) = dropWhile (\<lambda>x. x \<noteq> a) [c]"
    by (induction xs) auto
  ultimately show ?thesis using False unfolding precedes_def by (simp only:) simp
qed

text \<open>Every step of every thread keeps both invariants.\<close>

lemma order_inv_init: "order_inv Perform_init"
  by (simp add: order_inv_def Perform_init_def)

lemma mutex_inv_init: "mutex_inv Perform_init"
  by (simp add: mutex_inv_def Perform_init_def)




lemma caller_step_order:
  "order_inv s \<Longrightarrow>
   (case caller_step (caller_at s) s of None \<Rightarrow> True | Some s' \<Rightarrow> order_inv s')"
  by (cases "caller_at s") (simp_all add: order_inv_def precedes_snoc_iff)

lemma loop_step_order:
  "order_inv s \<Longrightarrow>
   (case loop_step (loop_at s) s of None \<Rightarrow> True | Some s' \<Rightarrow> order_inv s')"
  by (cases "loop_at s")
     (simp_all add: order_inv_def precedes_snoc_iff split: list.splits option.splits closure.splits)

lemma producer_step_order:
  "order_inv s \<Longrightarrow>
   (case producer_step n s of None \<Rightarrow> True | Some s' \<Rightarrow> order_inv s')"
  by (simp add: order_inv_def producer_step_def)

lemma caller_step_mutex:
  "mutex_inv s \<Longrightarrow>
   (case caller_step (caller_at s) s of None \<Rightarrow> True | Some s' \<Rightarrow> mutex_inv s')"
  by (cases "caller_at s") (auto simp: mutex_inv_def)

lemma loop_step_mutex:
  "mutex_inv s \<Longrightarrow>
   (case loop_step (loop_at s) s of None \<Rightarrow> True | Some s' \<Rightarrow> mutex_inv s')"
  by (cases "loop_at s")
     (auto simp: mutex_inv_def split: list.splits option.splits closure.splits)

lemma producer_step_mutex:
  "mutex_inv s \<Longrightarrow>
   (case producer_step n s of None \<Rightarrow> True | Some s' \<Rightarrow> mutex_inv s')"
  by (auto simp: mutex_inv_def producer_step_def)


lemma thread_step_inv:
  assumes "order_inv s" and "mutex_inv s" and "thread_step a s = Some s'"
  shows "order_inv s' \<and> mutex_inv s'"
proof (cases a)
  case Caller
  with assms caller_step_order [of s] caller_step_mutex [of s] show ?thesis by simp
next
  case LoopThread
  with assms loop_step_order [of s] loop_step_mutex [of s] show ?thesis by simp
next
  case (Producer n)
  with assms producer_step_order [of s n] producer_step_mutex [of s n] show ?thesis by simp
qed

lemma run_threads_inv:
  "order_inv s \<Longrightarrow> mutex_inv s \<Longrightarrow>
   order_inv (run_threads sched s) \<and> mutex_inv (run_threads sched s)"
proof (induction sched arbitrary: s)
  case Nil
  then show ?case by simp
next
  case (Cons a sched)
  show ?case
  proof (cases "thread_step a s")
    case None
    with Cons show ?thesis by simp
  next
    case (Some s')
    with Cons.prems have "order_inv s' \<and> mutex_inv s'" by (auto dest: thread_step_inv)
    with Cons.IH [of s'] Some show ?thesis by simp
  qed
qed

text \<open>
  C3. Under every schedule of the caller, the loop thread and other producers: once
  \<open>Perform\<close> has returned, \<open>f\<close> has completed, and its completion comes before the
  return. The flag is set only after \<open>f\<close> has completed, the condition is signalled only
  after the flag is set, the caller tests the flag and enters the wait holding the
  mutex, and \<open>f\<close> runs on the loop thread only.
\<close>

theorem Perform_returns_after_f:
  "(caller_at (run_threads sched Perform_init) = P_returned \<longrightarrow>
      precedes (LoopThread, F_completed) (Caller, Perform_returned)
        (trace (run_threads sched Perform_init)))
   \<and> ((Caller, Perform_returned) \<in> set (trace (run_threads sched Perform_init)) \<longrightarrow>
      precedes (LoopThread, F_completed) (Caller, Perform_returned)
        (trace (run_threads sched Perform_init)))
   \<and> (finished (run_threads sched Perform_init) \<longrightarrow>
      (LoopThread, F_completed) \<in> set (trace (run_threads sched Perform_init)))
   \<and> ((LoopThread, Finished_set) \<in> set (trace (run_threads sched Perform_init)) \<longrightarrow>
      precedes (LoopThread, F_completed) (LoopThread, Finished_set)
        (trace (run_threads sched Perform_init)))
   \<and> ((LoopThread, Cond_signalled) \<in> set (trace (run_threads sched Perform_init)) \<longrightarrow>
      precedes (LoopThread, Finished_set) (LoopThread, Cond_signalled)
        (trace (run_threads sched Perform_init)))
   \<and> (caller_at (run_threads sched Perform_init) \<in> {P_test, P_wait} \<longrightarrow>
      mutex_owner (run_threads sched Perform_init) = Some Caller)
   \<and> (\<forall>a. (a, F_completed) \<in> set (trace (run_threads sched Perform_init)) \<longrightarrow>
      a = LoopThread)"
proof -
  let ?s = "run_threads sched Perform_init"
  from run_threads_inv [OF order_inv_init mutex_inv_init, of sched]
  have o: "order_inv ?s" and m: "mutex_inv ?s" by simp_all
  from o have "caller_at ?s = P_returned \<longrightarrow>
      precedes (LoopThread, F_completed) (Caller, Perform_returned) (trace ?s)"
    by (simp add: order_inv_def)
  moreover from o have "(Caller, Perform_returned) \<in> set (trace ?s) \<longrightarrow>
      precedes (LoopThread, F_completed) (Caller, Perform_returned) (trace ?s)"
    by (simp add: order_inv_def)
  moreover from o have "finished ?s \<longrightarrow> (LoopThread, F_completed) \<in> set (trace ?s)"
    by (simp add: order_inv_def)
  moreover from o have "(LoopThread, Finished_set) \<in> set (trace ?s) \<longrightarrow>
      precedes (LoopThread, F_completed) (LoopThread, Finished_set) (trace ?s)"
    by (simp add: order_inv_def)
  moreover from o have "(LoopThread, Cond_signalled) \<in> set (trace ?s) \<longrightarrow>
      precedes (LoopThread, Finished_set) (LoopThread, Cond_signalled) (trace ?s)"
    by (simp add: order_inv_def)
  moreover from m have "caller_at ?s \<in> {P_test, P_wait} \<longrightarrow> mutex_owner ?s = Some Caller"
    by (auto simp: mutex_inv_def)
  moreover from o have "\<forall>a. (a, F_completed) \<in> set (trace ?s) \<longrightarrow> a = LoopThread"
    by (simp add: order_inv_def)
  ultimately show ?thesis by blast
qed

text \<open>
  The example schedule: the caller returns, after \<open>f\<close> has started and completed on the
  loop thread, the flag was set and the condition signalled.
\<close>

theorem Perform_returns_after_f_witness:
  "caller_at (run_threads waiting_schedule Perform_init) = P_returned
   \<and> trace (run_threads waiting_schedule Perform_init) =
       [(LoopThread, F_started), (LoopThread, F_completed), (LoopThread, Finished_set),
        (LoopThread, Cond_signalled), (Caller, Perform_returned)]
   \<and> precedes (LoopThread, F_completed) (Caller, Perform_returned)
        (trace (run_threads waiting_schedule Perform_init))"
proof -
  have r: "caller_at (run_threads waiting_schedule Perform_init) = P_returned"
    by (simp add: waiting_schedule_def Perform_init_def g_slist_append_def
        g_slist_delete_first_link_def)
  have t: "trace (run_threads waiting_schedule Perform_init) =
       [(LoopThread, F_started), (LoopThread, F_completed), (LoopThread, Finished_set),
        (LoopThread, Cond_signalled), (Caller, Perform_returned)]"
    by (simp add: waiting_schedule_def Perform_init_def g_slist_append_def
        g_slist_delete_first_link_def)
  from r Perform_returns_after_f [of waiting_schedule]
  have "precedes (LoopThread, F_completed) (Caller, Perform_returned)
        (trace (run_threads waiting_schedule Perform_init))"
    by blast
  with r t show ?thesis by blast
qed

section \<open>The queue: order and locking\<close>

text \<open>A call with the mutex free, in closed form.\<close>

lemma Schedule_unlocked:
  "\<not> mutex_held c \<Longrightarrow>
   Schedule f c = Inr (c\<lparr>pending := pending c @ [f], history := history c @ post_effects f\<rparr>)"
  by (cases c)
    (simp add: Schedule_def UV_CONTEXT_LOCK_def UV_CONTEXT_UNLOCK_def uv_async_send_handle_def
      g_slist_append_def post_effects_def)

lemma Schedule_locked: "mutex_held c \<Longrightarrow> Schedule f c = Inl Deadlock"
  by (simp add: Schedule_def UV_CONTEXT_LOCK_def)

lemma schedule_all_unlocked:
  "\<not> mutex_held c \<Longrightarrow>
   schedule_all fs c =
     Inr (c\<lparr>pending := pending c @ fs,
            history := history c @ concat (map post_effects fs)\<rparr>)"
proof (induction fs arbitrary: c)
  case Nil
  then show ?case by simp
next
  case (Cons f fs)
  let ?c1 = "c\<lparr>pending := pending c @ [f], history := history c @ post_effects f\<rparr>"
  from Cons.prems have s: "Schedule f c = Inr ?c1" by (rule Schedule_unlocked)
  from Cons.prems have "\<not> mutex_held ?c1" by simp
  from Cons.IH [OF this] s show ?case by simp
qed

lemma loop_body_locked:
  "mutex_held c \<Longrightarrow> pending c = w # rest \<Longrightarrow>
   loop_body w c =
     Inr (c\<lparr>pending := rest @ posts w, history := history c @ item_effects w\<rparr>)"
  by (cases c)
    (simp add: loop_body_def run_work_def schedule_all_unlocked UV_CONTEXT_LOCK_def
      UV_CONTEXT_UNLOCK_def g_slist_delete_first_link_def item_effects_def)

lemma drain_locked:
  "mutex_held c \<Longrightarrow>
   drain c =
     Inr (c\<lparr>pending := [],
            history := history c @ concat (map item_effects (drain_order (pending c)))\<rparr>)"
proof (induction c rule: drain.induct)
  case (1 c)
  show ?case
  proof (cases "pending c")
    case Nil
    then have "c\<lparr>pending := [],
        history := history c @ concat (map item_effects (drain_order (pending c)))\<rparr> = c"
      by (cases c) simp
    with Nil show ?thesis by (simp add: drain.simps [of c])
  next
    case (Cons w rest)
    let ?c1 = "c\<lparr>pending := rest @ posts w, history := history c @ item_effects w\<rparr>"
    from "1.prems" Cons have b: "loop_body w c = Inr ?c1" by (rule loop_body_locked)
    from "1.prems" have "mutex_held ?c1" by simp
    from "1.IH" [OF Cons b this] b Cons show ?thesis
      by (simp add: drain.simps [of c])
  qed
qed

lemma ProcessPending_unlocked:
  "\<not> mutex_held c \<Longrightarrow>
   ProcessPending c =
     Inr (c\<lparr>pending := [], history := history c @ drain_effects (pending c)\<rparr>)"
  by (cases c)
    (simp add: ProcessPending_def UV_CONTEXT_LOCK_def UV_CONTEXT_UNLOCK_def drain_locked
      drain_effects_def)

text \<open>The effects of a drain start no closure while the mutex is held.\<close>

lemma held_after_append: "held_after h (xs @ ys) = held_after (held_after h xs) ys"
  by (induction h xs rule: held_after.induct) simp_all

lemma runs_unlocked_append:
  "runs_unlocked h (xs @ ys) = (runs_unlocked h xs \<and> runs_unlocked (held_after h xs) ys)"
  by (induction h xs rule: runs_unlocked.induct) simp_all

lemma posts_unlocked:
  "runs_unlocked False (concat (map post_effects fs))
   \<and> held_after False (concat (map post_effects fs)) = False"
  by (induction fs) (simp_all add: post_effects_def)

lemma item_unlocked: "runs_unlocked True (item_effects w) \<and> held_after True (item_effects w)"
  using posts_unlocked [of "posts w"]
  by (simp add: item_effects_def runs_unlocked_append held_after_append)

lemma items_unlocked:
  "runs_unlocked True (concat (map item_effects ws))
   \<and> held_after True (concat (map item_effects ws))"
  by (induction ws) (simp_all add: runs_unlocked_append held_after_append item_unlocked)

lemma drain_effects_unlocked:
  "runs_unlocked False (drain_effects q) \<and> \<not> held_after False (drain_effects q)"
  using items_unlocked [of "drain_order q"]
  by (simp add: drain_effects_def runs_unlocked_append held_after_append)

text \<open>What a drain appends and runs.\<close>

lemma executed_append: "executed (xs @ ys) = executed xs @ executed ys"
  by (induction xs rule: executed.induct) simp_all

lemma enqueued_append: "enqueued (xs @ ys) = enqueued xs @ enqueued ys"
  by (induction xs rule: enqueued.induct) simp_all

lemma executed_posts: "executed (concat (map post_effects fs)) = []"
  by (induction fs) (simp_all add: post_effects_def)

lemma enqueued_posts: "enqueued (concat (map post_effects fs)) = map work_id fs"
  by (induction fs) (simp_all add: post_effects_def)

lemma executed_item: "executed (item_effects w) = [work_id w]"
  by (simp add: item_effects_def executed_append executed_posts)

lemma enqueued_item: "enqueued (item_effects w) = map work_id (posts w)"
  by (simp add: item_effects_def enqueued_append enqueued_posts)

lemma executed_items: "executed (concat (map item_effects ws)) = map work_id ws"
  by (induction ws) (simp_all add: executed_append executed_item)

lemma enqueued_items:
  "enqueued (concat (map item_effects ws)) = map work_id (concat (map posts ws))"
  by (induction ws) (simp_all add: enqueued_append enqueued_item)

lemma drain_order_posts: "drain_order q = q @ concat (map posts (drain_order q))"
  by (induction q rule: drain_order.induct) simp_all

lemma executed_drain: "executed (drain_effects q) = map work_id (drain_order q)"
  by (simp add: drain_effects_def executed_append executed_items)

lemma enqueued_drain:
  "map work_id q @ enqueued (drain_effects q) = map work_id (drain_order q)"
proof -
  have "map work_id q @ enqueued (drain_effects q) =
        map work_id (q @ concat (map posts (drain_order q)))"
    by (simp add: drain_effects_def enqueued_append enqueued_items)
  then show ?thesis using drain_order_posts [of q] by simp
qed

lemma drain_order_prefix: "prefix q (drain_order q)"
  using drain_order_posts [of q] by (metis prefixI)

lemma drain_order_closed:
  "w \<in> set (drain_order q) \<Longrightarrow> set (posts w) \<subseteq> set (drain_order q)"
proof -
  assume "w \<in> set (drain_order q)"
  then have "set (posts w) \<subseteq> set (concat (map posts (drain_order q)))" by auto
  also have "\<dots> \<subseteq> set (q @ concat (map posts (drain_order q)))" by simp
  finally show ?thesis using drain_order_posts [of q] by simp
qed

text \<open>Every sequence of calls keeps the queue behind the executions.\<close>

lemma run_calls_fifo:
  "\<not> mutex_held c \<Longrightarrow>
   enqueued (history c) = executed (history c) @ map work_id (pending c) \<Longrightarrow>
   \<exists>c'. run_calls calls c = Inr c' \<and> \<not> mutex_held c'
      \<and> enqueued (history c') = executed (history c') @ map work_id (pending c')"
proof (induction calls arbitrary: c)
  case Nil
  then show ?case by simp
next
  case (Cons a calls)
  show ?case
  proof (cases a)
    case (CallSchedule f)
    let ?c1 = "c\<lparr>pending := pending c @ [f], history := history c @ post_effects f\<rparr>"
    from Cons.prems(1) have s: "Schedule f c = Inr ?c1" by (rule Schedule_unlocked)
    from Cons.prems have "\<not> mutex_held ?c1"
      and "enqueued (history ?c1) = executed (history ?c1) @ map work_id (pending ?c1)"
      by (simp_all add: enqueued_append executed_append post_effects_def)
    from Cons.IH [OF this] s CallSchedule show ?thesis by simp
  next
    case CallProcessPending
    let ?c1 = "c\<lparr>pending := [], history := history c @ drain_effects (pending c)\<rparr>"
    from Cons.prems(1) have s: "ProcessPending c = Inr ?c1" by (rule ProcessPending_unlocked)
    have "enqueued (history ?c1) =
          executed (history c) @ (map work_id (pending c) @ enqueued (drain_effects (pending c)))"
      using Cons.prems(2) by (simp add: enqueued_append)
    also have "\<dots> = executed (history c) @ executed (drain_effects (pending c))"
      by (simp only: enqueued_drain executed_drain)
    finally have "enqueued (history ?c1) = executed (history ?c1) @ map work_id (pending ?c1)"
      by (simp add: executed_append)
    moreover from Cons.prems(1) have "\<not> mutex_held ?c1" by simp
    ultimately show ?thesis using Cons.IH [of ?c1] s CallProcessPending by simp
  qed
qed

text \<open>
  C4. After any sequence of \<open>Schedule\<close> and \<open>ProcessPending\<close> calls on a new context
  (closures that post further closures included), no call has faulted, and the closures
  appended so far are, in the order of their appends, the closures run so far followed
  by the queue: the order of execution is a prefix of the order of scheduling. One more
  drain empties the queue, and then exactly the scheduled closures have run, in the
  order in which they were scheduled.
\<close>

theorem schedule_order_is_execution_order:
  "\<exists>c. run_calls calls UVContext_new = Inr c
     \<and> enqueued (history c) = executed (history c) @ map work_id (pending c)
     \<and> prefix (executed (history c)) (enqueued (history c))
     \<and> (\<exists>c'. ProcessPending c = Inr c' \<and> pending c' = []
           \<and> executed (history c') = enqueued (history c')
           \<and> prefix (enqueued (history c)) (executed (history c')))"
proof -
  have 0: "\<not> mutex_held UVContext_new"
    "enqueued (history UVContext_new) =
       executed (history UVContext_new) @ map work_id (pending UVContext_new)"
    by (simp_all add: UVContext_new_def uv_unref_handle_def)
  from run_calls_fifo [OF 0, of calls] obtain c where
    c: "run_calls calls UVContext_new = Inr c" "\<not> mutex_held c"
       "enqueued (history c) = executed (history c) @ map work_id (pending c)"
    by blast
  from run_calls_fifo [OF c(2,3), of "[CallProcessPending]"] obtain c' where
    c': "ProcessPending c = Inr c'"
        "enqueued (history c') = executed (history c') @ map work_id (pending c')"
    by (auto split: sum.splits)
  from ProcessPending_unlocked [OF c(2)] c'(1)
  have p: "pending c' = []" "history c' = history c @ drain_effects (pending c)" by auto
  from p(2) have "prefix (enqueued (history c)) (enqueued (history c'))"
    by (simp add: enqueued_append)
  with c c' p(1) show ?thesis by (intro exI [of _ c] conjI exI [of _ c']) simp_all
qed

text \<open>
  Closures 1 and 2 are scheduled, 1 posts 3 while it runs, and 4 is scheduled after the
  drain: the drain runs 1, 2, 3, and 4 waits in the queue.
\<close>

theorem schedule_order_is_execution_order_witness:
  "\<exists>c. run_calls [CallSchedule (Work 1 [Work 3 []]), CallSchedule (Work 2 []),
                   CallProcessPending, CallSchedule (Work 4 [])] UVContext_new = Inr c
     \<and> enqueued (history c) = [1, 2, 3, 4]
     \<and> executed (history c) = [1, 2, 3]
     \<and> map work_id (pending c) = [4]"
proof -
  let ?calls = "[CallSchedule (Work 1 [Work 3 []]), CallSchedule (Work 2 []),
                 CallProcessPending, CallSchedule (Work 4 [])]"
  have u: "\<not> mutex_held UVContext_new" by (simp add: UVContext_new_def uv_unref_handle_def)
  have r: "run_calls ?calls UVContext_new =
        Inr (UVContext_new\<lparr>pending := [Work 4 []],
              history := uv_unref # post_effects (Work 1 [Work 3 []]) @ post_effects (Work 2 [])
                @ drain_effects [Work 1 [Work 3 []], Work 2 []] @ post_effects (Work 4 [])\<rparr>)"
    using u
    by (simp add: Schedule_unlocked ProcessPending_unlocked UVContext_new_def uv_unref_handle_def)
  from schedule_order_is_execution_order [of ?calls] obtain c where
    c: "run_calls ?calls UVContext_new = Inr c"
       "enqueued (history c) = executed (history c) @ map work_id (pending c)"
    by blast
  from c(1) r have
    "c = UVContext_new\<lparr>pending := [Work 4 []],
              history := uv_unref # post_effects (Work 1 [Work 3 []]) @ post_effects (Work 2 [])
                @ drain_effects [Work 1 [Work 3 []], Work 2 []] @ post_effects (Work 4 [])\<rparr>"
    by simp
  then have "executed (history c) = [1, 2, 3]" "map work_id (pending c) = [4]"
    by (simp_all add: drain_effects_def item_effects_def post_effects_def)
  with c show ?thesis by (intro exI [of _ c]) simp
qed

text \<open>
  C5. Called with the mutex free, \<open>ProcessPending\<close> returns without a fault, with the
  queue empty and the mutex free, and its effects are exactly those of the loop as
  described: the lock, then for each closure in turn its removal from the head, the
  unlock, its run (with the \<open>Schedule\<close> calls made meanwhile), its deletion and the
  lock again, and the unlock at the end. No closure starts while the mutex is held. The
  closures run are the queue found, followed by all the closures posted during the
  drain: what a running closure posts is run in the same invocation. (A \<open>Schedule\<close> by
  a thread that holds the mutex would never proceed.)
\<close>

theorem ProcessPending_drains_unlocked:
  "\<not> mutex_held c \<Longrightarrow>
   \<exists>c'. ProcessPending c = Inr c'
      \<and> pending c' = [] \<and> \<not> mutex_held c'
      \<and> history c' = history c @ drain_effects (pending c)
      \<and> runs_unlocked False (drain_effects (pending c))
      \<and> executed (drain_effects (pending c)) = map work_id (drain_order (pending c))
      \<and> prefix (pending c) (drain_order (pending c))
      \<and> (\<forall>w \<in> set (drain_order (pending c)). set (posts w) \<subseteq> set (drain_order (pending c)))
      \<and> (\<forall>f d. mutex_held d \<longrightarrow> Schedule f d = Inl Deadlock)"
proof -
  assume u: "\<not> mutex_held c"
  let ?c' = "c\<lparr>pending := [], history := history c @ drain_effects (pending c)\<rparr>"
  from u have "ProcessPending c = Inr ?c'" by (rule ProcessPending_unlocked)
  moreover have "pending ?c' = []" by simp
  moreover from u have "\<not> mutex_held ?c'" by simp
  moreover have "history ?c' = history c @ drain_effects (pending c)" by simp
  moreover have "runs_unlocked False (drain_effects (pending c))"
    using drain_effects_unlocked by blast
  moreover have "executed (drain_effects (pending c)) = map work_id (drain_order (pending c))"
    by (rule executed_drain)
  moreover have "prefix (pending c) (drain_order (pending c))"
    by (rule drain_order_prefix)
  moreover have
    "\<forall>w \<in> set (drain_order (pending c)). set (posts w) \<subseteq> set (drain_order (pending c))"
    using drain_order_closed by blast
  moreover have "\<forall>f d. mutex_held d \<longrightarrow> Schedule f d = Inl Deadlock"
    using Schedule_locked by blast
  ultimately show ?thesis by blast
qed

text \<open>A drain of the queue 1, 2 in which 1 posts 3: the effects, one by one.\<close>

theorem ProcessPending_drains_unlocked_witness:
  "\<not> mutex_held (UVContext_new\<lparr>pending := [Work 1 [Work 3 []], Work 2 []]\<rparr>)
   \<and> (\<exists>c'. ProcessPending (UVContext_new\<lparr>pending := [Work 1 [Work 3 []], Work 2 []]\<rparr>) = Inr c'
        \<and> pending c' = [] \<and> \<not> mutex_held c'
        \<and> history c' =
            [uv_unref, g_mutex_lock,
             Dequeued 1, g_mutex_unlock, Executed 1,
               g_mutex_lock, Enqueued 3, g_mutex_unlock, uv_async_send,
             Deleted 1, g_mutex_lock,
             Dequeued 2, g_mutex_unlock, Executed 2, Deleted 2, g_mutex_lock,
             Dequeued 3, g_mutex_unlock, Executed 3, Deleted 3, g_mutex_lock,
             g_mutex_unlock])"
proof -
  let ?c = "UVContext_new\<lparr>pending := [Work 1 [Work 3 []], Work 2 []]\<rparr>"
  have u: "\<not> mutex_held ?c" by (simp add: UVContext_new_def uv_unref_handle_def)
  have h: "history ?c = [uv_unref]" by (simp add: UVContext_new_def uv_unref_handle_def)
  have e: "drain_effects (pending ?c) =
            [g_mutex_lock,
             Dequeued 1, g_mutex_unlock, Executed 1,
               g_mutex_lock, Enqueued 3, g_mutex_unlock, uv_async_send,
             Deleted 1, g_mutex_lock,
             Dequeued 2, g_mutex_unlock, Executed 2, Deleted 2, g_mutex_lock,
             Dequeued 3, g_mutex_unlock, Executed 3, Deleted 3, g_mutex_lock,
             g_mutex_unlock]"
    by (simp add: drain_effects_def item_effects_def post_effects_def)
  from ProcessPending_drains_unlocked [OF u] obtain c' where
    "ProcessPending ?c = Inr c'" "pending c' = []" "\<not> mutex_held c'"
    "history c' = history ?c @ drain_effects (pending ?c)"
    by blast
  with u h e show ?thesis by (intro conjI exI [of _ c']) simp_all
qed

section \<open>Argument checks of the bound methods\<close>







section \<open>Construction of a Session\<close>

lemma one_external_iff:
  "(length args \<noteq> 1 \<or> \<not> IsExternal (arg args 0)) = (\<not> (\<exists>p. args = [VExternal p]))"
proof (cases args)
  case Nil
  then show ?thesis by simp
next
  case (Cons a as)
  then show ?thesis by (cases as; cases a) (simp_all add: arg_def)
qed

lemma Session_New_construct_bad:
  "\<not> (\<exists>p. args = [VExternal p]) \<Longrightarrow>
   Session_New True args b = (Inl (TypeError ''Bad argument, expected raw handle''), b)"
  using one_external_iff [of args] by simp

lemma Session_New_construct_ok:
  "Session_New True [VExternal p] b =
     (Inr (VObject [(''events'', VObject [])]),
      b\<lparr>wrappers := wrappers b @ [\<lparr>handle = p\<rparr>],
        monitors := monitors b @ [(p, ''detached'')]\<rparr>)"
  by (simp add: arg_def)

lemma Session_New_plain_call:
  "Session_New False args b = (Inl (TypeError ''Bad argument, expected raw handle''), b)"
  by (simp add: arg_def)

text \<open>
  C7. A construct call whose argument list is not exactly one \<open>External\<close> throws a type
  error and leaves the binding as it was. Whenever a call of the constructor callback
  adds a wrapper, it is a construct call with exactly one \<open>External\<close>. Such a call
  constructs the wrapper of the handle the \<open>External\<close> carries, and this is the call the
  factory of the binding makes.
\<close>

theorem Session_New_external_only:
  "(\<not> (\<exists>p. args = [VExternal p]) \<longrightarrow>
      Session_New True args b = (Inl (TypeError ''Bad argument, expected raw handle''), b))
   \<and> (wrappers (snd (Session_New c args b)) \<noteq> wrappers b \<longrightarrow>
        c \<and> (\<exists>p. args = [VExternal p]))
   \<and> Session_New True [VExternal h] b =
       (Inr (VObject [(''events'', VObject [])]),
        b\<lparr>wrappers := wrappers b @ [\<lparr>handle = h\<rparr>],
          monitors := monitors b @ [(h, ''detached'')]\<rparr>)
   \<and> Session_New_from_handle h b = Session_New True [VExternal h] b"
proof -
  have 1: "\<not> (\<exists>p. args = [VExternal p]) \<longrightarrow>
      Session_New True args b = (Inl (TypeError ''Bad argument, expected raw handle''), b)"
    using Session_New_construct_bad by blast
  have 2: "wrappers (snd (Session_New c args b)) \<noteq> wrappers b \<longrightarrow>
        c \<and> (\<exists>p. args = [VExternal p])"
  proof (cases c)
    case True
    with 1 show ?thesis by (cases "\<exists>p. args = [VExternal p]") auto
  next
    case False
    then show ?thesis using Session_New_plain_call [of args b] by simp
  qed
  from 1 2 Session_New_construct_ok [of h b] show ?thesis
    unfolding Session_New_from_handle_def by blast
qed

text \<open>
  A number, and two externals, are refused; the factory constructs the wrapper of handle 7.
\<close>

theorem Session_New_external_only_witness:
  "\<not> (\<exists>p. [VNumber (Finite 5)] = [VExternal p])
   \<and> Session_New True [VNumber (Finite 5)]
        \<lparr>operations = [], glib_pending = [], wrappers = [], monitors = []\<rparr> =
       (Inl (TypeError ''Bad argument, expected raw handle''),
        \<lparr>operations = [], glib_pending = [], wrappers = [], monitors = []\<rparr>)
   \<and> Session_New True [VExternal 7, VExternal 8]
        \<lparr>operations = [], glib_pending = [], wrappers = [], monitors = []\<rparr> =
       (Inl (TypeError ''Bad argument, expected raw handle''),
        \<lparr>operations = [], glib_pending = [], wrappers = [], monitors = []\<rparr>)
   \<and> Session_New_from_handle 7
        \<lparr>operations = [], glib_pending = [], wrappers = [], monitors = []\<rparr> =
       (Inr (VObject [(''events'', VObject [])]),
        \<lparr>operations = [], glib_pending = [], wrappers = [\<lparr>handle = 7\<rparr>],
         monitors = [(7, ''detached'')]\<rparr>)"
proof -
  have a: "\<not> (\<exists>p. [VNumber (Finite 5)] = [VExternal p])" by simp
  have b: "\<not> (\<exists>p. [VExternal 7, VExternal 8] = [VExternal p])" by simp
  note t1 = Session_New_external_only [of "[VNumber (Finite 5)]"
      "\<lparr>operations = [], glib_pending = [], wrappers = [], monitors = []\<rparr>" True 7]
  note t2 = Session_New_external_only [of "[VExternal 7, VExternal 8]"
      "\<lparr>operations = [], glib_pending = [], wrappers = [], monitors = []\<rparr>" True 7]
  from a t1 have 1: "Session_New True [VNumber (Finite 5)]
        \<lparr>operations = [], glib_pending = [], wrappers = [], monitors = []\<rparr> =
       (Inl (TypeError ''Bad argument, expected raw handle''),
        \<lparr>operations = [], glib_pending = [], wrappers = [], monitors = []\<rparr>)"
    by blast
  from b t2 have 2: "Session_New True [VExternal 7, VExternal 8]
        \<lparr>operations = [], glib_pending = [], wrappers = [], monitors = []\<rparr> =
       (Inl (TypeError ''Bad argument, expected raw handle''),
        \<lparr>operations = [], glib_pending = [], wrappers = [], monitors = []\<rparr>)"
    by blast
  from t1 have 3: "Session_New_from_handle 7
        \<lparr>operations = [], glib_pending = [], wrappers = [], monitors = []\<rparr> =
       (Inr (VObject [(''events'', VObject [])]),
        \<lparr>operations = [], glib_pending = [], wrappers = [\<lparr>handle = 7\<rparr>],
         monitors = [(7, ''detached'')]\<rparr>)"
    by (simp del: Session_New.simps)
  from a 1 2 3 show ?thesis by blast
qed

section \<open>The JSON round trip\<close>

text \<open>
  C8. The helpers of a runtime are the \<open>JSON.stringify\<close> and \<open>JSON.parse\<close> of the global
  object the runtime was constructed with, also after the registry has changed. For a
  value that is JSON-round-trippable, \<open>ValueToJson\<close> yields a string and \<open>ValueFromJson\<close>
  of that string yields an equivalent value.
\<close>

theorem json_round_trip:
  "ValueToJson engine (Runtime_new uv glib global) v = JSON_stringify engine global v
   \<and> ValueFromJson engine (Runtime_new uv glib global) j = JSON_parse engine global j
   \<and> ValueToJson engine (SetDataPointer (Runtime_new uv glib global) k p) v =
       JSON_stringify engine global v
   \<and> ValueFromJson engine (SetDataPointer (Runtime_new uv glib global) k p) j =
       JSON_parse engine global j
   \<and> (json_round_trippable engine same global v \<longrightarrow>
        (\<exists>json v'. ValueToJson engine (Runtime_new uv glib global) v = Some json
            \<and> IsString json
            \<and> ValueFromJson engine (Runtime_new uv glib global) json = Some v'
            \<and> same v' v))"
  by (auto simp: ValueToJson_def ValueFromJson_def Runtime_new_def SetDataPointer_def
      JSON_stringify_def JSON_parse_def json_round_trippable_def Let_def split: option.splits)

text \<open>With the example engine, \<open>true\<close> goes to the string \<open>true\<close> and back.\<close>

theorem json_round_trip_witness:
  "json_round_trippable example_engine (=) example_global (VBoolean True)
   \<and> ValueToJson example_engine (Runtime_new 1 2 example_global) (VBoolean True) = Some (VString ''true'')
   \<and> ValueFromJson example_engine (Runtime_new 1 2 example_global) (VString ''true'') = Some (VBoolean True)"
proof -
  have rt: "json_round_trippable example_engine (=) example_global (VBoolean True)"
    by (simp add: json_round_trippable_def JSON_stringify_def JSON_parse_def example_engine_def
        example_global_def)
  have s: "JSON_stringify example_engine example_global (VBoolean True) = Some (VString ''true'')"
    by (simp add: JSON_stringify_def example_engine_def example_global_def)
  have p: "JSON_parse example_engine example_global (VString ''true'') = Some (VBoolean True)"
    by (simp add: JSON_parse_def example_engine_def example_global_def)
  note t = json_round_trip [of example_engine 1 2 example_global "VBoolean True" "VString ''true''"
      "''k''" 0 "(=)"]
  from t s p rt show ?thesis by simp
qed

section \<open>The debugger port\<close>

text \<open>The cast of an \<open>int64_t\<close> to \<open>guint16\<close> keeps the value modulo \<open>2^16\<close>.\<close>

lemma cast16: "uint (ucast (word_of_int i :: 64 word) :: 16 word) = i mod 65536"
proof -
  have "(65536::int) dvd 18446744073709551616" by simp
  then have "i mod 18446744073709551616 mod 65536 = i mod 65536"
    by (rule mod_mod_cancel)
  then show ?thesis
    by (simp add: unsigned_ucast_eq uint_word_of_int take_bit_eq_mod)
qed

text \<open>Truncation towards zero, told by its bounds.\<close>

lemma truncation_unique:
  "(0 \<le> q \<and> of_int v \<le> q \<and> q < of_int v + 1) \<or> (q < 0 \<and> of_int v - 1 < q \<and> q \<le> of_int v)
   \<Longrightarrow> (if 0 \<le> q then \<lfloor>q\<rfloor> else \<lceil>q\<rceil>) = v"
  for q :: rat
proof (cases "0 \<le> q")
  case True
  assume "(0 \<le> q \<and> of_int v \<le> q \<and> q < of_int v + 1) \<or> (q < 0 \<and> of_int v - 1 < q \<and> q \<le> of_int v)"
  with True have "of_int v \<le> q" and "q < of_int v + 1" by auto
  then have "\<lfloor>q\<rfloor> = v" by (rule floor_unique)
  with True show ?thesis by simp
next
  case False
  assume "(0 \<le> q \<and> of_int v \<le> q \<and> q < of_int v + 1) \<or> (q < 0 \<and> of_int v - 1 < q \<and> q \<le> of_int v)"
  with False have "of_int v - 1 < q" and "q \<le> of_int v" by auto
  then have "\<lceil>q\<rceil> = v" by (rule ceiling_unique)
  with False show ?thesis by simp
qed

text \<open>
  C9, as the code has it. \<open>enableDebugger\<close> with a number as first argument throws
  nothing, whatever the number, and schedules an operation whose \<open>Begin\<close> hands its port
  to the native entry point. Where the number is finite and its value truncated towards
  zero, \<open>v\<close>, is an \<open>int64_t\<close>, the port is \<open>v\<close> modulo \<open>2^16\<close>: a value outside
  0..65535 wraps. For NaN the port is 0. (Beyond the range of \<open>int64_t\<close> the port is the
  low half-word of what the target's conversion yields.)
\<close>

theorem EnableDebugger_port:
  "\<exists>port. Session_EnableDebugger t wrapper (VNumber n # rest) b =
     (Inr (VPromise (length (operations b))),
      b\<lparr>operations := operations b @ [EnableDebuggerOperation port],
        glib_pending := glib_pending b @ [(handle wrapper, EnableDebuggerOperation port)]\<rparr>)
   \<and> run_glib_work (handle wrapper, EnableDebuggerOperation port) =
       frida_session_enable_debugger (handle wrapper) port
   \<and> (\<forall>q v. n = Finite q
          \<and> ((0 \<le> q \<and> of_int v \<le> q \<and> q < of_int v + 1)
              \<or> (q < 0 \<and> of_int v - 1 < q \<and> q \<le> of_int v))
          \<and> - 9223372036854775808 \<le> v \<and> v < 9223372036854775808
        \<longrightarrow> uint port = v mod 65536)
   \<and> (n = NaN \<longrightarrow> port = 0)"
proof -
  let ?port = "static_cast_guint16 (ToInteger_Value t (VNumber n))"
  have r: "Session_EnableDebugger t wrapper (VNumber n # rest) b =
     (Inr (VPromise (length (operations b))),
      b\<lparr>operations := operations b @ [EnableDebuggerOperation ?port],
        glib_pending := glib_pending b @ [(handle wrapper, EnableDebuggerOperation ?port)]\<rparr>)"
    by (simp add: Session_EnableDebugger_def arg_def new_operation_def Operation_Schedule_def
        GetPromise_def Let_def)
  have c: "run_glib_work (handle wrapper, EnableDebuggerOperation ?port) =
       frida_session_enable_debugger (handle wrapper) ?port"
    by (simp add: run_glib_work_def)
  have f: "uint ?port = v mod 65536"
    if "n = Finite q"
      and "(0 \<le> q \<and> of_int v \<le> q \<and> q < of_int v + 1)
           \<or> (q < 0 \<and> of_int v - 1 < q \<and> q \<le> of_int v)"
      and "- 9223372036854775808 \<le> v" and "v < 9223372036854775808"
    for q v
  proof -
    from that(2) have tr: "(if 0 \<le> q then \<lfloor>q\<rfloor> else \<lceil>q\<rceil>) = v"
      by (rule truncation_unique)
    have "(if 0 \<le> of_int v then \<lfloor>of_int v :: rat\<rfloor> else \<lceil>of_int v :: rat\<rceil>) = v"
      by simp
    with tr that(1,3,4) have "ToInteger_Value t (VNumber n) = word_of_int v"
      by (simp add: is_int64_def)
    then show ?thesis by (simp add: static_cast_guint16_def cast16)
  qed
  have z: "?port = 0" if "n = NaN"
    using that by (simp add: static_cast_guint16_def is_int64_def)
  from r c f z show ?thesis by (intro exI [of _ ?port]) blast
qed

text \<open>
  On x86-64: \<open>enableDebugger(70000)\<close> enables the debugger on port 4464,
  \<open>enableDebugger(-1.5)\<close> on port 65535, and \<open>enableDebugger(8080.7)\<close> on port 8080.
\<close>

theorem EnableDebugger_port_witness:
  "(\<exists>port. Session_EnableDebugger x86_64 \<lparr>handle = 7\<rparr> [VNumber (Finite 70000)]
      \<lparr>operations = [], glib_pending = [], wrappers = [], monitors = []\<rparr> =
     (Inr (VPromise 0),
      \<lparr>operations = [EnableDebuggerOperation port],
       glib_pending = [(7, EnableDebuggerOperation port)], wrappers = [], monitors = []\<rparr>)
     \<and> run_glib_work (7, EnableDebuggerOperation port) = frida_session_enable_debugger 7 port
     \<and> uint port = 4464)
   \<and> (\<exists>port. Session_EnableDebugger x86_64 \<lparr>handle = 7\<rparr> [VNumber (Finite (- 3 / 2))]
      \<lparr>operations = [], glib_pending = [], wrappers = [], monitors = []\<rparr> =
     (Inr (VPromise 0),
      \<lparr>operations = [EnableDebuggerOperation port],
       glib_pending = [(7, EnableDebuggerOperation port)], wrappers = [], monitors = []\<rparr>)
     \<and> uint port = 65535)
   \<and> (\<exists>port. Session_EnableDebugger x86_64 \<lparr>handle = 7\<rparr> [VNumber (Finite (80807 / 10))]
      \<lparr>operations = [], glib_pending = [], wrappers = [], monitors = []\<rparr> =
     (Inr (VPromise 0),
      \<lparr>operations = [EnableDebuggerOperation port],
       glib_pending = [(7, EnableDebuggerOperation port)], wrappers = [], monitors = []\<rparr>)
     \<and> uint port = 8080)"
proof -
  let ?b = "\<lparr>operations = [], glib_pending = [], wrappers = [], monitors = []\<rparr>"
  note t = EnableDebugger_port [where t = x86_64 and wrapper = "\<lparr>handle = 7\<rparr>"
      and rest = "[]" and b = ?b]
  from t [where n = "Finite 70000"] obtain p1 where
    r1: "Session_EnableDebugger x86_64 \<lparr>handle = 7\<rparr> [VNumber (Finite 70000)] ?b =
       (Inr (VPromise 0),
        \<lparr>operations = [EnableDebuggerOperation p1],
         glib_pending = [(7, EnableDebuggerOperation p1)], wrappers = [], monitors = []\<rparr>)"
    and c1: "run_glib_work (7, EnableDebuggerOperation p1) = frida_session_enable_debugger 7 p1"
    and a1: "\<forall>q v. Finite 70000 = Finite q
          \<and> ((0 \<le> q \<and> of_int v \<le> q \<and> q < of_int v + 1)
              \<or> (q < 0 \<and> of_int v - 1 < q \<and> q \<le> of_int v))
          \<and> - 9223372036854775808 \<le> v \<and> v < 9223372036854775808
        \<longrightarrow> uint p1 = v mod 65536"
    by auto
  from a1 [rule_format, of 70000 70000] have u1: "uint p1 = 4464" by simp
  from t [where n = "Finite (- 3 / 2)"] obtain p2 where
    r2: "Session_EnableDebugger x86_64 \<lparr>handle = 7\<rparr> [VNumber (Finite (- 3 / 2))] ?b =
       (Inr (VPromise 0),
        \<lparr>operations = [EnableDebuggerOperation p2],
         glib_pending = [(7, EnableDebuggerOperation p2)], wrappers = [], monitors = []\<rparr>)"
    and a2: "\<forall>q v. Finite (- 3 / 2) = Finite q
          \<and> ((0 \<le> q \<and> of_int v \<le> q \<and> q < of_int v + 1)
              \<or> (q < 0 \<and> of_int v - 1 < q \<and> q \<le> of_int v))
          \<and> - 9223372036854775808 \<le> v \<and> v < 9223372036854775808
        \<longrightarrow> uint p2 = v mod 65536"
    by auto
  from a2 [rule_format, of "- 3 / 2" "- 1"] have u2: "uint p2 = 65535" by simp
  from t [where n = "Finite (80807 / 10)"] obtain p3 where
    r3: "Session_EnableDebugger x86_64 \<lparr>handle = 7\<rparr> [VNumber (Finite (80807 / 10))] ?b =
       (Inr (VPromise 0),
        \<lparr>operations = [EnableDebuggerOperation p3],
         glib_pending = [(7, EnableDebuggerOperation p3)], wrappers = [], monitors = []\<rparr>)"
    and a3: "\<forall>q v. Finite (80807 / 10) = Finite q
          \<and> ((0 \<le> q \<and> of_int v \<le> q \<and> q < of_int v + 1)
              \<or> (q < 0 \<and> of_int v - 1 < q \<and> q \<le> of_int v))
          \<and> - 9223372036854775808 \<le> v \<and> v < 9223372036854775808
        \<longrightarrow> uint p3 = v mod 65536"
    by auto
  from a3 [rule_format, of "80807 / 10" 8080] have u3: "uint p3 = 8080" by simp
  from r1 c1 u1 r2 u2 r3 u3 show ?thesis by blast
qed

text \<open>
  C9, as stated for every number, fails. \<open>2^63 + 2048\<close> is a double, its integer value
  modulo \<open>2^16\<close> is 2048, and on x86-64 \<open>enableDebugger\<close> hands the native entry point
  the port 0.
\<close>

theorem EnableDebugger_port_counterexample:
  "Session_EnableDebugger x86_64 \<lparr>handle = 7\<rparr> [VNumber (Finite 9223372036854777856)]
      \<lparr>operations = [], glib_pending = [], wrappers = [], monitors = []\<rparr> =
     (Inr (VPromise 0),
      \<lparr>operations = [EnableDebuggerOperation 0],
       glib_pending = [(7, EnableDebuggerOperation 0)], wrappers = [], monitors = []\<rparr>)
   \<and> run_glib_work (7, EnableDebuggerOperation 0) = frida_session_enable_debugger 7 0
   \<and> (9223372036854777856 :: int) mod 65536 = 2048
   \<and> uint (0 :: 16 word) \<noteq> 9223372036854777856 mod 65536"
  by (simp add: Session_EnableDebugger_def arg_def new_operation_def Operation_Schedule_def
      GetPromise_def run_glib_work_def static_cast_guint16_def Let_def is_int64_def x86_64_def)

section \<open>The name of a script\<close>

lemma g_strdup_no_nul: "CHR 0x00 \<notin> set s \<Longrightarrow> g_strdup s = s"
  by (auto simp: g_strdup_def takeWhile_eq_all_conv)

text \<open>
  C10. \<open>createScript\<close> with \<open>null\<close> as first and a string as second argument throws
  nothing and schedules an operation whose \<open>Begin\<close> hands the native entry point a NULL
  name. With a string as first argument the name handed over is the \<open>g_strdup\<close> copy of
  its UTF-8 bytes, which is the string itself when it holds no NUL.
\<close>

theorem CreateScript_name:
  "Session_CreateScript wrapper (VNull # VString src # rest) b =
     (Inr (VPromise (length (operations b))),
      b\<lparr>operations := operations b @ [CreateScriptOperation None (g_strdup src)],
        glib_pending := glib_pending b @
          [(handle wrapper, CreateScriptOperation None (g_strdup src))]\<rparr>)
   \<and> run_glib_work (handle wrapper, CreateScriptOperation None (g_strdup src)) =
       frida_session_create_script (handle wrapper) None (g_strdup src)
   \<and> Session_CreateScript wrapper (VString nm # VString src # rest) b =
     (Inr (VPromise (length (operations b))),
      b\<lparr>operations := operations b @ [CreateScriptOperation (Some (g_strdup nm)) (g_strdup src)],
        glib_pending := glib_pending b @
          [(handle wrapper, CreateScriptOperation (Some (g_strdup nm)) (g_strdup src))]\<rparr>)
   \<and> run_glib_work (handle wrapper, CreateScriptOperation (Some (g_strdup nm)) (g_strdup src)) =
       frida_session_create_script (handle wrapper) (Some (g_strdup nm)) (g_strdup src)
   \<and> (CHR 0x00 \<notin> set nm \<longrightarrow> g_strdup nm = nm)"
  by (simp add: Session_CreateScript_def arg_def new_operation_def Operation_Schedule_def
      GetPromise_def run_glib_work_def Let_def g_strdup_no_nul)

text \<open>A script without a name, and the script named \<open>agent\<close>.\<close>

theorem CreateScript_name_witness:
  "Session_CreateScript \<lparr>handle = 7\<rparr> [VNull, VString ''send(1)'']
      \<lparr>operations = [], glib_pending = [], wrappers = [], monitors = []\<rparr> =
     (Inr (VPromise 0),
      \<lparr>operations = [CreateScriptOperation None ''send(1)''],
       glib_pending = [(7, CreateScriptOperation None ''send(1)'')],
       wrappers = [], monitors = []\<rparr>)
   \<and> run_glib_work (7, CreateScriptOperation None ''send(1)'') =
       frida_session_create_script 7 None ''send(1)''
   \<and> Session_CreateScript \<lparr>handle = 7\<rparr> [VString ''agent'', VString ''send(1)'']
      \<lparr>operations = [], glib_pending = [], wrappers = [], monitors = []\<rparr> =
     (Inr (VPromise 0),
      \<lparr>operations = [CreateScriptOperation (Some ''agent'') ''send(1)''],
       glib_pending = [(7, CreateScriptOperation (Some ''agent'') ''send(1)'')],
       wrappers = [], monitors = []\<rparr>)
   \<and> CHR 0x00 \<notin> set ''agent'' \<and> g_strdup ''agent'' = ''agent''"
  using CreateScript_name [of "\<lparr>handle = 7\<rparr>" "''send(1)''" "[]"
      "\<lparr>operations = [], glib_pending = [], wrappers = [], monitors = []\<rparr>" "''agent''"]
  by (simp add: g_strdup_def)

end
